theory Spec2Isabelle
  imports Main "HOL-Library.Word"
begin

section \<open>Connection supervision of the pub/sub transport: reconnect counter and backoff\<close>

text \<open>
  Times and delays are JavaScript numbers holding whole milliseconds; they are modelled
  as natural numbers (delays, counters) and integers (instants). The products
  \<open>reconnectDelay * Math.pow(2, n)\<close> are whole numbers, and \<open>Math.min\<close> with the
  cap returns the cap as soon as the product exceeds it, which is also what happens once
  the floating-point product has become \<open>Infinity\<close>.
\<close>

text \<open>
  \<^verbatim>\<open>
  const mqttConfig = { maxReconnectAttempts: 10, reconnectDelay: 1000,
                       maxReconnectDelay: 30000, connectTimeout: 10000, keepalive: 60 };
  \<close>
\<close>

record backoffConfig =
  maxReconnectAttempts :: nat
  reconnectDelay :: nat
  maxReconnectDelay :: nat

definition mqttConfig :: backoffConfig where
  "mqttConfig = \<lparr> maxReconnectAttempts = 10, reconnectDelay = 1000, maxReconnectDelay = 30000 \<rparr>"

text \<open>
  The module-level \<open>connectionState\<close> of the pub/sub service, together with the two
  fields of the client object its handlers write: \<open>client.options.reconnectPeriod\<close>
  (the delay the client waits before its next attempt; \<open>mqtt.connect\<close> is called with
  \<open>reconnectPeriod: mqttConfig.reconnectDelay\<close>) and whether \<open>client.end(true)\<close>
  was called.
\<close>

record mqttState =
  isConnected :: bool
  reconnectCount :: nat
  messageCount :: nat
  reconnectPeriod :: nat
  ended :: bool

definition mqtt_initial :: "backoffConfig \<Rightarrow> mqttState" where
  "mqtt_initial cfg =
     \<lparr> isConnected = False, reconnectCount = 0, messageCount = 0,
       reconnectPeriod = reconnectDelay cfg, ended = False \<rparr>"

text \<open>\<^verbatim>\<open>client.on("connect", ...)\<close>: sets the flag and resets the counter; nothing else
  of the state is written.\<close>

definition mqtt_on_connect :: "mqttState \<Rightarrow> mqttState" where
  "mqtt_on_connect st = st\<lparr> isConnected := True, reconnectCount := 0 \<rparr>"

text \<open>\<^verbatim>\<open>client.on("disconnect", ...)\<close> and \<^verbatim>\<open>client.on("close", ...)\<close>.\<close>

definition mqtt_on_disconnect :: "mqttState \<Rightarrow> mqttState" where
  "mqtt_on_disconnect st = st\<lparr> isConnected := False \<rparr>"

definition mqtt_on_close :: "mqttState \<Rightarrow> mqttState" where
  "mqtt_on_close st = st\<lparr> isConnected := False \<rparr>"

text \<open>\<^verbatim>\<open>client.on("error", ...)\<close>: ends the client once the counter has reached the
  maximum.\<close>

definition mqtt_on_error :: "backoffConfig \<Rightarrow> mqttState \<Rightarrow> mqttState" where
  "mqtt_on_error cfg st =
     (if reconnectCount st \<ge> maxReconnectAttempts cfg then st\<lparr> ended := True \<rparr> else st)"

text \<open>
  \<^verbatim>\<open>
  client.on("reconnect", () => {
    connectionState.reconnectCount++;
    const newDelay = Math.min(
      mqttConfig.reconnectDelay * Math.pow(2, connectionState.reconnectCount),
      mqttConfig.maxReconnectDelay);
    client.options.reconnectPeriod = newDelay;
    ...
  \<close>
  The counter is incremented first, so the exponent of the first reconnect is 1.
\<close>

definition mqtt_on_reconnect :: "backoffConfig \<Rightarrow> mqttState \<Rightarrow> mqttState" where
  "mqtt_on_reconnect cfg st =
     (let n = reconnectCount st + 1;
          newDelay = min (reconnectDelay cfg * 2 ^ n) (maxReconnectDelay cfg)
      in st\<lparr> reconnectCount := n, reconnectPeriod := newDelay \<rparr>)"

text \<open>
  The client library (mqtt.js) decides when the handlers run. When the connection
  closes it starts a timer of \<open>client.options.reconnectPeriod\<close> milliseconds; when
  the timer fires it emits \<open>reconnect\<close> and attempts to connect. So the delay waited
  before a reconnect attempt is the reconnect period in force, and the handler of that
  attempt sets the period of the next one. \<open>mqtt_retry\<close> is one such step from a
  closed connection: the delay waited, and the state after the \<open>reconnect\<close> event.
\<close>

definition mqtt_retry :: "backoffConfig \<Rightarrow> mqttState \<Rightarrow> nat \<times> mqttState" where
  "mqtt_retry cfg st = (reconnectPeriod st, mqtt_on_reconnect cfg st)"

text \<open>
  An attempt that fails because the broker is unreachable raises \<open>error\<close> and then
  \<open>close\<close>.
\<close>

definition mqtt_attempt_fails :: "backoffConfig \<Rightarrow> mqttState \<Rightarrow> mqttState" where
  "mqtt_attempt_fails cfg st = mqtt_on_close (mqtt_on_error cfg st)"

text \<open>
  The delays waited over up to \<open>n\<close> consecutive failed reconnect attempts, starting
  from a closed connection. A client that was ended (\<open>client.end(true)\<close>) makes no
  further attempt. \<open>mqtt_initial\<close> is also the state in which the first connection
  attempt, made at once by \<open>mqtt.connect\<close>, has failed: its \<open>error\<close> and
  \<open>close\<close> events change nothing.
\<close>

fun mqtt_failures :: "backoffConfig \<Rightarrow> nat \<Rightarrow> mqttState \<Rightarrow> nat list" where
  "mqtt_failures cfg 0 st = []"
| "mqtt_failures cfg (Suc n) st =
     (if ended st then []
      else case mqtt_retry cfg st of
             (waited, st1) \<Rightarrow> waited # mqtt_failures cfg n (mqtt_attempt_fails cfg st1))"

section \<open>Wireless frame decoder (parseDeviceData in bluetooth.service.js)\<close>

text \<open>
  A frame is a Node.js \<open>Buffer\<close>: a sequence of bytes. An exception of the source is a
  value of \<open>js_error\<close>, and a computation that may throw returns \<open>js_error + 'a\<close>.
\<close>

type_synonym byte = "8 word"

datatype js_error = RangeError | TypeError | StorageError

text \<open>\<open>data[i]\<close>: \<open>undefined\<close> (here \<open>None\<close>) outside the buffer.\<close>

definition buf_index :: "byte list \<Rightarrow> nat \<Rightarrow> byte option" where
  "buf_index data i = (if i < length data then Some (data ! i) else None)"

text \<open>
  The read methods of \<open>Buffer\<close> throw a \<open>RangeError\<close> unless the whole field lies
  inside the buffer. \<open>readUInt32LE\<close> returns a number, \<open>readBigUInt64LE\<close> a BigInt,
  \<open>readInt16LE\<close> the two's complement reading of two bytes, low byte first.
\<close>

fun le_nat :: "byte list \<Rightarrow> nat" where
  "le_nat [] = 0"
| "le_nat (b # bs) = unat b + 256 * le_nat bs"

definition readUInt32LE :: "byte list \<Rightarrow> nat \<Rightarrow> js_error + nat" where
  "readUInt32LE data off =
     (if off + 4 \<le> length data then Inr (le_nat (take 4 (drop off data))) else Inl RangeError)"

definition readBigUInt64LE :: "byte list \<Rightarrow> nat \<Rightarrow> js_error + nat" where
  "readBigUInt64LE data off =
     (if off + 8 \<le> length data then Inr (le_nat (take 8 (drop off data))) else Inl RangeError)"

definition readInt16LE :: "byte list \<Rightarrow> nat \<Rightarrow> js_error + int" where
  "readInt16LE data off =
     (if off + 2 \<le> length data
      then Inr (sint (word_of_nat (le_nat (take 2 (drop off data))) :: 16 word))
      else Inl RangeError)"

text \<open>
  \<open>new Date(v)\<close> for a BigInt \<open>v\<close>. The \<open>Date\<close> constructor converts an argument
  that is neither a Date object nor a string with \<open>ToNumber\<close>, and \<open>ToNumber\<close> of a
  BigInt throws a \<open>TypeError\<close> ("Cannot convert a BigInt value to a number"), whatever
  the value is.
\<close>

definition new_Date_of_BigInt :: "nat \<Rightarrow> js_error + int" where
  "new_Date_of_BigInt v = Inl TypeError"

text \<open>\<open>Number.prototype.toString()\<close> of a non-negative whole number: its decimal digits.\<close>

function decimal :: "nat \<Rightarrow> string" where
  "decimal n = (if n < 10 then [char_of (48 + n)] else decimal (n div 10) @ [char_of (48 + n mod 10)])"
  by pat_completeness auto
termination
  by (relation "measure (\<lambda>n. n)") auto

declare decimal.simps [simp del]

text \<open>
  The objects the decoder builds, which are also the shape of a pub/sub payload. An item
  of \<open>responseData\<close> is a data point of the schema (\<open>timestamp\<close>, \<open>value\<close>,
  \<open>channel\<close>; fields \<open>responseValue\<close> and \<open>responseChannel\<close>) in a pub/sub
  payload, and an object \<open>{ timestamp, response }\<close> holding the rest of the frame in
  what the decoder builds.
\<close>

record dataPoint =
  timestamp :: int
  sampleValue :: int
  channel :: "nat option"

record responsePoint =
  responseTimestamp :: int
  responseValue :: "int option"
  responseChannel :: "nat option"
  response :: "byte list option"

record stimParams =
  intensity :: "byte option"
  frequency :: "byte option"
  pulseWidth :: "byte option"

record metadata =
  source :: string
  deviceType :: string

text \<open>
  \<open>data_type\<close> is the field \<open>type\<close>. \<open>data_timestamp\<close> is a timestamp the payload of
  an event may carry at its top level; no function of the source reads it.
  \<open>data_responseData\<close> is optional: the source reads it as \<open>data.responseData || []\<close>.
\<close>

record deviceData =
  data_type :: string
  data_sessionId :: string
  data_timestamp :: "int option"
  data_dataPoints :: "dataPoint list"
  data_stimulationParameters :: "stimParams option"
  data_stimulationPattern :: "string option"
  data_responseData :: "responsePoint list option"
  data_metadata :: "metadata option"

text \<open>
  \<^verbatim>\<open>
  const dataPoints = [];
  for (let i = 13; i < data.length; i += 2) {
    if (i + 1 < data.length) {
      dataPoints.push({ timestamp, value: data.readInt16LE(i) });
    }
  }
  \<close>
\<close>

function collectPoints :: "byte list \<Rightarrow> int \<Rightarrow> nat \<Rightarrow> dataPoint list \<Rightarrow> js_error + dataPoint list" where
  "collectPoints data ts i acc =
     (if i < length data
      then (if i + 1 < length data
            then (case readInt16LE data i of
                    Inl e \<Rightarrow> Inl e
                  | Inr v \<Rightarrow> collectPoints data ts (i + 2)
                      (acc @ [\<lparr> timestamp = ts, sampleValue = v, channel = None \<rparr>]))
            else collectPoints data ts (i + 2) acc)
      else Inr acc)"
  by pat_completeness auto
termination
  by (relation "measure (\<lambda>(data, ts, i, acc). length data - i)") auto

declare collectPoints.simps [simp del]

text \<open>
  The body of the \<open>try\<close> block of \<open>parseDeviceData\<close>, with the construction of the
  timestamp (\<open>new Date(data.readBigUInt64LE(5))\<close>) as the parameter \<open>mkDate\<close>.
  The first byte selects the frame kind: 1 is EMG, 2 is EMS, anything else (also
  \<open>undefined\<close>, for the empty buffer) falls through to \<open>return null\<close>.
\<close>

definition parseBody :: "(nat \<Rightarrow> js_error + int) \<Rightarrow> byte list \<Rightarrow> js_error + deviceData option" where
  "parseBody mkDate data =
     (if buf_index data 0 = Some 1 then
        (case readUInt32LE data 1 of Inl e \<Rightarrow> Inl e | Inr sid \<Rightarrow>
         case readBigUInt64LE data 5 of Inl e \<Rightarrow> Inl e | Inr big \<Rightarrow>
         case mkDate big of Inl e \<Rightarrow> Inl e | Inr ts \<Rightarrow>
         case collectPoints data ts 13 [] of Inl e \<Rightarrow> Inl e | Inr pts \<Rightarrow>
           Inr (Some \<lparr> data_type = ''emg'', data_sessionId = decimal sid,
                       data_timestamp = None, data_dataPoints = pts,
                       data_stimulationParameters = None, data_stimulationPattern = None,
                       data_responseData = None,
                       data_metadata = Some \<lparr> source = ''bluetooth'', deviceType = ''myozen'' \<rparr> \<rparr>))
      else if buf_index data 0 = Some 2 then
        (case readUInt32LE data 1 of Inl e \<Rightarrow> Inl e | Inr sid \<Rightarrow>
         case readBigUInt64LE data 5 of Inl e \<Rightarrow> Inl e | Inr big \<Rightarrow>
         case mkDate big of Inl e \<Rightarrow> Inl e | Inr ts \<Rightarrow>
           Inr (Some \<lparr> data_type = ''ems'', data_sessionId = decimal sid,
                       data_timestamp = None, data_dataPoints = [],
                       data_stimulationParameters =
                         Some \<lparr> intensity = buf_index data 13, frequency = buf_index data 14,
                                pulseWidth = buf_index data 15 \<rparr>,
                       data_stimulationPattern = None,
                       data_responseData =
                         Some [\<lparr> responseTimestamp = ts, responseValue = None,
                                 responseChannel = None, response = Some (drop 16 data) \<rparr>],
                       data_metadata = Some \<lparr> source = ''bluetooth'', deviceType = ''myozen'' \<rparr> \<rparr>))
      else Inr None)"

text \<open>The \<open>try\<close>/\<open>catch\<close>: every exception of the body is logged and becomes \<open>null\<close>.\<close>

definition parseDeviceData_with :: "(nat \<Rightarrow> js_error + int) \<Rightarrow> byte list \<Rightarrow> deviceData option" where
  "parseDeviceData_with mkDate data =
     (case parseBody mkDate data of Inl e \<Rightarrow> None | Inr r \<Rightarrow> r)"

definition parseDeviceData :: "byte list \<Rightarrow> deviceData option" where
  "parseDeviceData data = parseDeviceData_with new_Date_of_BigInt data"

section \<open>Storage: the session and device collections\<close>

text \<open>
  The Mongoose models \<open>Device\<close>, \<open>EMGData\<close> and \<open>EMSData\<close> are modelled as lists of
  documents in insertion order. An \<open>ObjectId\<close> is a natural number, an instant is a
  number of milliseconds. The schemas of \<open>EMGData\<close> and \<open>EMSData\<close> (data.model.js)
  share the fields of \<open>sessionDoc\<close>; \<open>docId\<close> is the field \<open>_id\<close>.
  A new document has \<open>startTime\<close> at its schema default \<open>Date.now\<close>, no \<open>endTime\<close>,
  and \<open>syncStatus.synced\<close> at its default \<open>false\<close>.
\<close>

record sync_status =
  synced :: bool
  syncedAt :: "int option"

record sessionDoc =
  docId :: nat
  device :: nat
  patient :: "nat option"
  doctor :: "nat option"
  sessionId :: string
  startTime :: int
  endTime :: "int option"
  docMetadata :: "metadata option"
  syncStatus :: sync_status

record emgDoc = sessionDoc +
  dataPoints :: "dataPoint list"

record emsDoc = sessionDoc +
  stimulationParameters :: "stimParams option"
  stimulationPattern :: "string option"
  responseData :: "responsePoint list"

record deviceDoc =
  deviceId :: nat
  serialNumber :: string
  assignedPatient :: "nat option"
  assignedDoctor :: "nat option"
  lastConnected :: "int option"

record db =
  devices :: "deviceDoc list"
  emgData :: "emgDoc list"
  emsData :: "emsDoc list"

definition emptyDb :: db where
  "emptyDb = \<lparr> devices = [], emgData = [], emsData = [] \<rparr>"

text \<open>
  \<open>Model.findOne({ sessionId, device })\<close>: the first document of the collection with
  that session id and device, or \<open>null\<close>.
\<close>

definition findOne :: "string \<Rightarrow> nat \<Rightarrow> 'a sessionDoc_scheme list \<Rightarrow> 'a sessionDoc_scheme option" where
  "findOne sid dev coll = find (\<lambda>r. sessionId r = sid \<and> device r = dev) coll"

text \<open>
  \<open>Model.findByIdAndUpdate(id, update)\<close> and \<open>document.save()\<close> change the stored
  document with that \<open>_id\<close>, in place.
\<close>

fun updateById :: "nat \<Rightarrow> ('a sessionDoc_scheme \<Rightarrow> 'a sessionDoc_scheme)
    \<Rightarrow> 'a sessionDoc_scheme list \<Rightarrow> 'a sessionDoc_scheme list" where
  "updateById i f [] = []"
| "updateById i f (r # rs) = (if docId r = i then f r # rs else r # updateById i f rs)"

text \<open>\<open>Model.create\<close> gives the new document an \<open>_id\<close> that no stored document has.\<close>

definition freshId :: "'a sessionDoc_scheme list \<Rightarrow> nat" where
  "freshId coll = Suc (foldr max (map docId coll) 0)"

text \<open>\<open>device.save()\<close>: the stored device with that \<open>_id\<close> is replaced.\<close>

definition saveDevice :: "deviceDoc \<Rightarrow> deviceDoc list \<Rightarrow> deviceDoc list" where
  "saveDevice d ds = map (\<lambda>x. if deviceId x = deviceId d then d else x) ds"

section \<open>Session aggregation (processEMGData, processEMSData, handleDeviceData)\<close>

text \<open>
  Every storage call is awaited inside one \<open>try\<close> block whose \<open>catch\<close> logs the
  error and returns. A call rejects when the store is unreachable or, for \<open>create\<close>,
  when the document fails the validation of its schema. Which call of a handler run
  rejects, if any, is an input of the model (\<open>fault\<close>), as are the two readings of the
  clock: \<open>seenAt\<close> for \<open>device.lastConnected = new Date()\<close>, and \<open>writeAt\<close> for
  \<open>endTime: new Date()\<close> of an append or the default \<open>startTime\<close> of a create.
\<close>

datatype storage_call = DeviceSave | FindOne | FindByIdAndUpdate | Create

record callEnv =
  seenAt :: int
  writeAt :: int
  fault :: "storage_call option"

text \<open>
  \<^verbatim>\<open>
  await EMGData.findByIdAndUpdate(existingSession._id, {
    $push: { dataPoints: { $each: data.dataPoints } },
    endTime: new Date(),
  });
  \<close>
\<close>

definition appendEMG :: "deviceData \<Rightarrow> callEnv \<Rightarrow> emgDoc \<Rightarrow> emgDoc" where
  "appendEMG data env r =
     r\<lparr> dataPoints := dataPoints r @ data_dataPoints data, endTime := Some (writeAt env) \<rparr>"

text \<open>
  \<^verbatim>\<open>
  await EMGData.create({
    device: device._id, patient: device.assignedPatient, doctor: device.assignedDoctor,
    sessionId: data.sessionId, dataPoints: data.dataPoints, metadata: data.metadata,
    syncStatus: { synced: false },
  });
  \<close>
\<close>

definition newEMG :: "deviceDoc \<Rightarrow> deviceData \<Rightarrow> callEnv \<Rightarrow> nat \<Rightarrow> emgDoc" where
  "newEMG dev data env i =
     \<lparr> docId = i, device = deviceId dev, patient = assignedPatient dev,
       doctor = assignedDoctor dev, sessionId = data_sessionId data,
       startTime = writeAt env, endTime = None, docMetadata = data_metadata data,
       syncStatus = \<lparr> synced = False, syncedAt = None \<rparr>,
       dataPoints = data_dataPoints data \<rparr>"

text \<open>The find-or-create of an EMG session, after \<open>device.save()\<close> has succeeded.\<close>

definition upsertEMG :: "deviceDoc \<Rightarrow> deviceData \<Rightarrow> callEnv \<Rightarrow> emgDoc list \<Rightarrow> emgDoc list" where
  "upsertEMG dev data env coll =
     (if fault env = Some FindOne then coll
      else case findOne (data_sessionId data) (deviceId dev) coll of
             Some existingSession \<Rightarrow>
               if fault env = Some FindByIdAndUpdate then coll
               else updateById (docId existingSession) (appendEMG data env) coll
           | None \<Rightarrow>
               if fault env = Some Create then coll
               else coll @ [newEMG dev data env (freshId coll)])"

text \<open>The same for an EMS session: \<open>$push\<close> of \<open>data.responseData || []\<close>.\<close>

definition appendEMS :: "deviceData \<Rightarrow> callEnv \<Rightarrow> emsDoc \<Rightarrow> emsDoc" where
  "appendEMS data env r =
     r\<lparr> responseData := responseData r @ (case data_responseData data of None \<Rightarrow> [] | Some ps \<Rightarrow> ps),
        endTime := Some (writeAt env) \<rparr>"

definition newEMS :: "deviceDoc \<Rightarrow> deviceData \<Rightarrow> callEnv \<Rightarrow> nat \<Rightarrow> emsDoc" where
  "newEMS dev data env i =
     \<lparr> docId = i, device = deviceId dev, patient = assignedPatient dev,
       doctor = assignedDoctor dev, sessionId = data_sessionId data,
       startTime = writeAt env, endTime = None, docMetadata = data_metadata data,
       syncStatus = \<lparr> synced = False, syncedAt = None \<rparr>,
       stimulationParameters = data_stimulationParameters data,
       stimulationPattern = data_stimulationPattern data,
       responseData = (case data_responseData data of None \<Rightarrow> [] | Some ps \<Rightarrow> ps) \<rparr>"

definition upsertEMS :: "deviceDoc \<Rightarrow> deviceData \<Rightarrow> callEnv \<Rightarrow> emsDoc list \<Rightarrow> emsDoc list" where
  "upsertEMS dev data env coll =
     (if fault env = Some FindOne then coll
      else case findOne (data_sessionId data) (deviceId dev) coll of
             Some existingSession \<Rightarrow>
               if fault env = Some FindByIdAndUpdate then coll
               else updateById (docId existingSession) (appendEMS data env) coll
           | None \<Rightarrow>
               if fault env = Some Create then coll
               else coll @ [newEMS dev data env (freshId coll)])"

text \<open>
  \<open>device.lastConnected = new Date(); await device.save();\<close> opens each handler; when
  it rejects, nothing else happens.
\<close>

definition touchDevice :: "deviceDoc \<Rightarrow> callEnv \<Rightarrow> db \<Rightarrow> db" where
  "touchDevice dev env d =
     d\<lparr> devices := saveDevice (dev\<lparr> lastConnected := Some (seenAt env) \<rparr>) (devices d) \<rparr>"

text \<open>\<open>processEMGData\<close> and \<open>processEMSData\<close> of the wireless service.\<close>

definition processEMGData :: "deviceDoc \<Rightarrow> deviceData \<Rightarrow> callEnv \<Rightarrow> db \<Rightarrow> db" where
  "processEMGData dev data env d =
     (if fault env = Some DeviceSave then d
      else let d1 = touchDevice dev env d
           in d1\<lparr> emgData := upsertEMG dev data env (emgData d1) \<rparr>)"

definition processEMSData :: "deviceDoc \<Rightarrow> deviceData \<Rightarrow> callEnv \<Rightarrow> db \<Rightarrow> db" where
  "processEMSData dev data env d =
     (if fault env = Some DeviceSave then d
      else let d1 = touchDevice dev env d
           in d1\<lparr> emsData := upsertEMS dev data env (emsData d1) \<rparr>)"

text \<open>
  \<open>handleDeviceData\<close> of the pub/sub service: the same two branches, selected by
  \<open>data.type\<close>; a payload of any other type only touches the device.
\<close>

definition handleDeviceData :: "deviceDoc \<Rightarrow> deviceData \<Rightarrow> callEnv \<Rightarrow> db \<Rightarrow> db" where
  "handleDeviceData dev data env d =
     (if fault env = Some DeviceSave then d
      else let d1 = touchDevice dev env d
           in if data_type data = ''emg'' then d1\<lparr> emgData := upsertEMG dev data env (emgData d1) \<rparr>
              else if data_type data = ''ems'' then d1\<lparr> emsData := upsertEMS dev data env (emsData d1) \<rparr>
              else d1)"

text \<open>
  The end of \<open>handleDeviceData\<close> of the wireless service, once the device is found
  and the frame is decoded:
  \<^verbatim>\<open>
  if (parsedData.type === "emg") { await processEMGData(device, parsedData, shouldLog); }
  else if (parsedData.type === "ems") { await processEMSData(device, parsedData, shouldLog); }
  \<close>
\<close>

definition dispatchParsed :: "deviceDoc \<Rightarrow> deviceData \<Rightarrow> callEnv \<Rightarrow> db \<Rightarrow> db" where
  "dispatchParsed dev data env d =
     (if data_type data = ''emg'' then processEMGData dev data env d
      else if data_type data = ''ems'' then processEMSData dev data env d
      else d)"

text \<open>
  Events are handled one after the other, in arrival order. An event is the device
  document its handler was given, the payload, and the environment of that run.
\<close>

type_synonym event = "deviceDoc \<times> deviceData \<times> callEnv"

definition handleAll :: "event list \<Rightarrow> db \<Rightarrow> db" where
  "handleAll evs d = fold (\<lambda>(dev, data, env). handleDeviceData dev data env) evs d"

definition dispatchAll :: "event list \<Rightarrow> db \<Rightarrow> db" where
  "dispatchAll evs d = fold (\<lambda>(dev, data, env). dispatchParsed dev data env) evs d"

text \<open>The session key of an event and of a stored document.\<close>

definition eventKey :: "event \<Rightarrow> nat \<times> string" where
  "eventKey ev = (case ev of (dev, data, env) \<Rightarrow> (deviceId dev, data_sessionId data))"

definition docKey :: "'a sessionDoc_scheme \<Rightarrow> nat \<times> string" where
  "docKey r = (device r, sessionId r)"

definition eventType :: "event \<Rightarrow> string" where
  "eventType ev = (case ev of (dev, data, env) \<Rightarrow> data_type data)"

definition eventPoints :: "event \<Rightarrow> dataPoint list" where
  "eventPoints ev = (case ev of (dev, data, env) \<Rightarrow> data_dataPoints data)"

definition eventFault :: "event \<Rightarrow> storage_call option" where
  "eventFault ev = (case ev of (dev, data, env) \<Rightarrow> fault env)"

text \<open>
  Observers: the stored documents with a given session key, and the events of a kind
  with a given session key, with their payloads.
\<close>

definition keyDocs :: "nat \<times> string \<Rightarrow> 'a sessionDoc_scheme list \<Rightarrow> 'a sessionDoc_scheme list" where
  "keyDocs k coll = filter (\<lambda>r. docKey r = k) coll"

definition emgEvents :: "nat \<times> string \<Rightarrow> event list \<Rightarrow> event list" where
  "emgEvents k evs = filter (\<lambda>ev. eventType ev = ''emg'' \<and> eventKey ev = k) evs"

definition emsEvents :: "nat \<times> string \<Rightarrow> event list \<Rightarrow> event list" where
  "emsEvents k evs = filter (\<lambda>ev. eventType ev = ''ems'' \<and> eventKey ev = k) evs"

definition eventResponses :: "event \<Rightarrow> responsePoint list" where
  "eventResponses ev =
     (case ev of (dev, data, env) \<Rightarrow> (case data_responseData data of None \<Rightarrow> [] | Some ps \<Rightarrow> ps))"

section \<open>Example inputs\<close>

text \<open>
  A device \<open>D1\<close> with a patient and a doctor, and a store that holds this device
  and no session record; EMG events \<open>A\<close> (three samples) and
  \<open>B\<close> (two samples, stamped 150, handled at 200) for session \<open>S1\<close> of \<open>D1\<close>; an
  EMS event for the same session; an EMG event for another session, whose create is
  rejected. The events that meet no storage error satisfy the schemas of data.model.js:
  the device has a patient and a doctor, and every data point and response item has
  a value and a channel.
\<close>

definition exDevice :: deviceDoc where
  "exDevice = \<lparr> deviceId = 4, serialNumber = ''D1'', assignedPatient = Some 7,
                 assignedDoctor = Some 8, lastConnected = None \<rparr>"

definition exDeviceStore :: db where
  "exDeviceStore = \<lparr> devices = [exDevice], emgData = [], emsData = [] \<rparr>"

definition exPoint :: "int \<Rightarrow> int \<Rightarrow> dataPoint" where
  "exPoint t v = \<lparr> timestamp = t, sampleValue = v, channel = Some 0 \<rparr>"

definition exPayload :: "string \<Rightarrow> string \<Rightarrow> int \<Rightarrow> dataPoint list \<Rightarrow> deviceData" where
  "exPayload ty sid t pts =
     \<lparr> data_type = ty, data_sessionId = sid, data_timestamp = Some t, data_dataPoints = pts,
       data_stimulationParameters = None, data_stimulationPattern = None,
       data_responseData = None, data_metadata = None \<rparr>"

definition exEventA :: event where
  "exEventA = (exDevice, exPayload ''emg'' ''S1'' 100 [exPoint 100 1, exPoint 100 2, exPoint 100 3],
               \<lparr> seenAt = 110, writeAt = 111, fault = None \<rparr>)"

definition exEventB :: event where
  "exEventB = (exDevice, exPayload ''emg'' ''S1'' 150 [exPoint 150 4, exPoint 150 5],
               \<lparr> seenAt = 199, writeAt = 200, fault = None \<rparr>)"

definition exEventEMS :: event where
  "exEventEMS = (exDevice,
                 (exPayload ''ems'' ''S1'' 150 [])\<lparr> data_responseData :=
                     Some [\<lparr> responseTimestamp = 150, responseValue = Some 12,
                             responseChannel = Some 0, response = None \<rparr>] \<rparr>,
                 \<lparr> seenAt = 199, writeAt = 200, fault = None \<rparr>)"

definition exEventOther :: event where
  "exEventOther = (exDevice, exPayload ''emg'' ''S2'' 120 [exPoint 120 9],
                   \<lparr> seenAt = 130, writeAt = 131, fault = Some Create \<rparr>)"

section \<open>Sync service (sync.service.js)\<close>

text \<open>
  The environment of a sync run: whether \<open>Model.find\<close> of a kind rejects, whether
  \<open>record.save()\<close> of a record rejects, and the reading of the clock taken for
  \<open>syncedAt\<close> of a record. The simulated push (a timer of 200 ms) cannot fail; the only
  failure of a record's sync is its \<open>save\<close>.
\<close>

datatype dataKind = EMG | EMS

record syncEnv =
  findFails :: "dataKind \<Rightarrow> bool"
  saveFails :: "dataKind \<Rightarrow> nat \<Rightarrow> bool"
  syncClock :: "dataKind \<Rightarrow> nat \<Rightarrow> int"

text \<open>The lines the service writes to the console for each record it attempts.\<close>

datatype logEntry = Synced dataKind nat | FailedToSync dataKind nat

fun isSynced :: "logEntry \<Rightarrow> bool" where
  "isSynced (Synced k i) = True"
| "isSynced (FailedToSync k i) = False"

fun entryId :: "logEntry \<Rightarrow> nat" where
  "entryId (Synced k i) = i"
| "entryId (FailedToSync k i) = i"

text \<open>
  \<^verbatim>\<open>
  record.syncStatus.synced = true;
  record.syncStatus.syncedAt = new Date();
  await record.save();
  \<close>
  \<open>save\<close> writes the two modified paths to the stored document with the record's
  \<open>_id\<close>. When it rejects (\<open>saveFails\<close>, which also stands for the save of a
  document that is no longer stored), the stored document is as before.
\<close>

definition markSynced :: "int \<Rightarrow> 'a sessionDoc_scheme \<Rightarrow> 'a sessionDoc_scheme" where
  "markSynced t r = r\<lparr> syncStatus := (syncStatus r)\<lparr> synced := True, syncedAt := Some t \<rparr> \<rparr>"

definition syncEMGRecord :: "syncEnv \<Rightarrow> emgDoc \<Rightarrow> db \<Rightarrow> db \<times> bool" where
  "syncEMGRecord env rcd d =
     (if saveFails env EMG (docId rcd) then (d, False)
      else (d\<lparr> emgData := updateById (docId rcd) (markSynced (syncClock env EMG (docId rcd))) (emgData d) \<rparr>,
            True))"

definition syncEMSRecord :: "syncEnv \<Rightarrow> emsDoc \<Rightarrow> db \<Rightarrow> db \<times> bool" where
  "syncEMSRecord env rcd d =
     (if saveFails env EMS (docId rcd) then (d, False)
      else (d\<lparr> emsData := updateById (docId rcd) (markSynced (syncClock env EMS (docId rcd))) (emsData d) \<rparr>,
            True))"

text \<open>
  \<open>for (const record of pending) { await this.syncEMGRecord(record); }\<close>: every record
  of the batch is attempted once, in order, whatever the outcome of the ones before.
  The result carries the console lines of the attempts.
\<close>

fun syncEMGRecords :: "syncEnv \<Rightarrow> emgDoc list \<Rightarrow> db \<Rightarrow> db \<times> logEntry list" where
  "syncEMGRecords env [] d = (d, [])"
| "syncEMGRecords env (rcd # rest) d =
     (case syncEMGRecord env rcd d of (d1, ok) \<Rightarrow>
      case syncEMGRecords env rest d1 of (d2, lg) \<Rightarrow>
        (d2, (if ok then Synced EMG (docId rcd) else FailedToSync EMG (docId rcd)) # lg))"

fun syncEMSRecords :: "syncEnv \<Rightarrow> emsDoc list \<Rightarrow> db \<Rightarrow> db \<times> logEntry list" where
  "syncEMSRecords env [] d = (d, [])"
| "syncEMSRecords env (rcd # rest) d =
     (case syncEMSRecord env rcd d of (d1, ok) \<Rightarrow>
      case syncEMSRecords env rest d1 of (d2, lg) \<Rightarrow>
        (d2, (if ok then Synced EMS (docId rcd) else FailedToSync EMS (docId rcd)) # lg))"

text \<open>\<open>Model.find({ 'syncStatus.synced': false }).limit(100)\<close>.\<close>

definition batchSize :: nat where
  "batchSize = 100"

definition unsynced :: "'a sessionDoc_scheme \<Rightarrow> bool" where
  "unsynced r = (\<not> synced (syncStatus r))"

definition findUnsynced :: "'a sessionDoc_scheme list \<Rightarrow> 'a sessionDoc_scheme list" where
  "findUnsynced coll = take batchSize (filter unsynced coll)"

text \<open>
  The \<open>try\<close> block of \<open>syncData\<close>. A rejected \<open>find\<close> leaves the block through the
  \<open>catch\<close>; what was saved before stays saved.
\<close>

definition syncBody :: "syncEnv \<Rightarrow> db \<Rightarrow> db \<times> logEntry list" where
  "syncBody env d =
     (if findFails env EMG then (d, [])
      else let pendingEMGData = findUnsynced (emgData d) in
           case (if length pendingEMGData > 0 then syncEMGRecords env pendingEMGData d else (d, []))
           of (d1, lg1) \<Rightarrow>
             if findFails env EMS then (d1, lg1)
             else let pendingEMSData = findUnsynced (emsData d1) in
                  case (if length pendingEMSData > 0 then syncEMSRecords env pendingEMSData d1 else (d1, []))
                  of (d2, lg2) \<Rightarrow> (d2, lg1 @ lg2))"

text \<open>
  The service object. \<open>syncData\<close> checks and sets \<open>isSyncing\<close> without an \<open>await\<close>
  in between, so the two happen in one step (\<open>syncData_enter\<close>, which also tells
  whether the run was started); the \<open>finally\<close> block clears the flag
  (\<open>syncData_leave\<close>).
\<close>

text \<open>\<open>syncInterval\<close> is the timer of the job, modelled by its period.\<close>

record syncService =
  isSyncing :: bool
  syncInterval :: "nat option"

definition newSyncService :: syncService where
  "newSyncService = \<lparr> isSyncing = False, syncInterval = None \<rparr>"

definition startSyncJob :: "nat \<Rightarrow> syncService \<Rightarrow> syncService" where
  "startSyncJob interval svc = svc\<lparr> syncInterval := Some interval \<rparr>"

definition stopSyncJob :: "syncService \<Rightarrow> syncService" where
  "stopSyncJob svc = (if syncInterval svc \<noteq> None then svc\<lparr> syncInterval := None \<rparr> else svc)"

definition syncData_enter :: "syncService \<Rightarrow> syncService \<times> bool" where
  "syncData_enter svc = (if isSyncing svc then (svc, False) else (svc\<lparr> isSyncing := True \<rparr>, True))"

definition syncData_leave :: "syncService \<Rightarrow> syncService" where
  "syncData_leave svc = svc\<lparr> isSyncing := False \<rparr>"

text \<open>A call of \<open>syncData\<close> that runs to its end with nothing else in between.\<close>

definition syncData :: "syncEnv \<Rightarrow> syncService \<Rightarrow> db \<Rightarrow> syncService \<times> db \<times> logEntry list" where
  "syncData env svc d =
     (case syncData_enter svc of
        (svc1, False) \<Rightarrow> (svc1, d, [])
      | (svc1, True) \<Rightarrow> (case syncBody env d of (d1, lg) \<Rightarrow> (syncData_leave svc1, d1, lg)))"

text \<open>
  Calls of \<open>syncData\<close> interleave at its \<open>await\<close>s. The scheduler state is the
  service object and the number of calls that have passed the guard and not yet reached
  their \<open>finally\<close> block. \<open>Trigger\<close> is a call of \<open>syncData\<close> (a timer tick or a
  direct call); \<open>RunEnds threw\<close> is a run in progress reaching its \<open>finally\<close> block,
  after its body completed or (\<open>threw\<close>) after the \<open>catch\<close>; with no run in
  progress there is none to end, and the step leaves the state as it is.
\<close>

record scheduler =
  service :: syncService
  activeRuns :: nat

datatype schedEvent = Trigger | RunEnds bool

definition newScheduler :: scheduler where
  "newScheduler = \<lparr> service = newSyncService, activeRuns = 0 \<rparr>"

fun schedStep :: "scheduler \<Rightarrow> schedEvent \<Rightarrow> scheduler" where
  "schedStep s Trigger =
     (case syncData_enter (service s) of
        (svc, started) \<Rightarrow> s\<lparr> service := svc, activeRuns := (if started then activeRuns s + 1 else activeRuns s) \<rparr>)"
| "schedStep s (RunEnds threw) =
     (if activeRuns s = 0 then s
      else s\<lparr> service := syncData_leave (service s), activeRuns := activeRuns s - 1 \<rparr>)"

definition schedRun :: "schedEvent list \<Rightarrow> scheduler" where
  "schedRun evs = foldl schedStep newScheduler evs"









text \<open>
  The relation every write of the core keeps between a stored document and its later
  version: the \<open>_id\<close> stays, and \<open>syncStatus\<close> is either untouched or says
  synced, with \<open>syncedAt\<close> set.
\<close>

definition statusStep :: "'a sessionDoc_scheme \<Rightarrow> 'a sessionDoc_scheme \<Rightarrow> bool" where
  "statusStep x y \<longleftrightarrow>
     docId y = docId x \<and>
     (syncStatus y = syncStatus x \<or> (synced (syncStatus y) \<and> syncedAt (syncStatus y) \<noteq> None))"

definition evolves :: "'a sessionDoc_scheme list \<Rightarrow> 'a sessionDoc_scheme list \<Rightarrow> bool" where
  "evolves old new \<longleftrightarrow> length old \<le> length new \<and> list_all2 statusStep old (take (length old) new)"

text \<open>
  The stored document \<open>x\<close> after a loop over records with the ids \<open>ids\<close>, and the
  console lines of such a loop.
\<close>

definition afterSync :: "syncEnv \<Rightarrow> dataKind \<Rightarrow> nat set \<Rightarrow> 'a sessionDoc_scheme \<Rightarrow> 'a sessionDoc_scheme" where
  "afterSync env k ids x =
     (if docId x \<in> ids \<and> \<not> saveFails env k (docId x)
      then markSynced (syncClock env k (docId x)) x else x)"

definition attemptLog :: "syncEnv \<Rightarrow> dataKind \<Rightarrow> nat list \<Rightarrow> logEntry list" where
  "attemptLog env k ids = map (\<lambda>i. if saveFails env k i then FailedToSync k i else Synced k i) ids"

fun entryKind :: "logEntry \<Rightarrow> dataKind" where
  "entryKind (Synced k i) = k"
| "entryKind (FailedToSync k i) = k"

text \<open>
  \<open>Model.findById\<close>, and whether the stored document of a record fetched earlier is
  synced.
\<close>

definition findById :: "nat \<Rightarrow> 'a sessionDoc_scheme list \<Rightarrow> 'a sessionDoc_scheme option" where
  "findById i coll = find (\<lambda>x. docId x = i) coll"

definition syncedInStore :: "'a sessionDoc_scheme list \<Rightarrow> 'a sessionDoc_scheme \<Rightarrow> bool" where
  "syncedInStore coll r =
     (case findById (docId r) coll of Some x \<Rightarrow> synced (syncStatus x) | None \<Rightarrow> False)"

text \<open>
  A store with \<open>n\<close> unsynced EMG records with the ids \<open>0, ..., n - 1\<close>, and a sync
  environment in which exactly the saves of the records in \<open>bad\<close> fail.
\<close>

definition exDoc :: "nat \<Rightarrow> emgDoc" where
  "exDoc i = \<lparr> docId = i, device = 4, patient = Some 7, doctor = Some 8,
               sessionId = decimal i, startTime = 0, endTime = None, docMetadata = None,
               syncStatus = \<lparr> synced = False, syncedAt = None \<rparr>, dataPoints = [] \<rparr>"

definition exStore :: "nat \<Rightarrow> db" where
  "exStore n = \<lparr> devices = [exDevice], emgData = map exDoc [0..<n], emsData = [] \<rparr>"

definition exEnv :: "nat set \<Rightarrow> syncEnv" where
  "exEnv bad = \<lparr> findFails = (\<lambda>k. False), saveFails = (\<lambda>k i. i \<in> bad),
                 syncClock = (\<lambda>k i. 1000 + int i) \<rparr>"


section \<open>Reconnect backoff\<close>

lemma mqtt_on_reconnect_period:
  "reconnectPeriod (mqtt_on_reconnect cfg st) =
     min (reconnectDelay cfg * 2 ^ (reconnectCount st + 1)) (maxReconnectDelay cfg)"
  by (simp add: mqtt_on_reconnect_def Let_def)

lemma mqtt_on_reconnect_count:
  "reconnectCount (mqtt_on_reconnect cfg st) = reconnectCount st + 1"
  by (simp add: mqtt_on_reconnect_def Let_def)

lemma map_upt_Suc_shift:
  "map f [0..<Suc n] = f 0 # map (\<lambda>k. f (Suc k)) [0..<n]"
  by (simp add: upt_conv_Cons map_Suc_upt [symmetric] del: upt_Suc)

text \<open>
  Over consecutive failures the period in force is always the backoff of the counter:
  the handler of one attempt prepares the delay of the next.
\<close>

lemma mqtt_failures_from:
  assumes "\<not> ended st"
    and "reconnectCount st + n \<le> maxReconnectAttempts cfg"
    and "reconnectPeriod st = min (reconnectDelay cfg * 2 ^ reconnectCount st) (maxReconnectDelay cfg)"
  shows "mqtt_failures cfg n st =
           map (\<lambda>k. min (reconnectDelay cfg * 2 ^ (reconnectCount st + k)) (maxReconnectDelay cfg)) [0..<n]"
  using assms
proof (induction n arbitrary: st)
  case 0
  then show ?case by simp
next
  case (Suc n)
  let ?st2 = "mqtt_attempt_fails cfg (mqtt_on_reconnect cfg st)"
  have c2: "reconnectCount ?st2 = Suc (reconnectCount st)"
    by (simp add: mqtt_attempt_fails_def mqtt_on_close_def mqtt_on_error_def mqtt_on_reconnect_def Let_def)
  have p2: "reconnectPeriod ?st2
              = min (reconnectDelay cfg * 2 ^ reconnectCount ?st2) (maxReconnectDelay cfg)"
    by (simp add: mqtt_attempt_fails_def mqtt_on_close_def mqtt_on_error_def mqtt_on_reconnect_def Let_def)
  have rest: "mqtt_failures cfg n ?st2 =
           map (\<lambda>k. min (reconnectDelay cfg * 2 ^ (reconnectCount ?st2 + k)) (maxReconnectDelay cfg)) [0..<n]"
  proof (cases n)
    case 0
    then show ?thesis by simp
  next
    case (Suc m)
    with Suc.prems(2) have "Suc (reconnectCount st) < maxReconnectAttempts cfg" by simp
    with Suc.prems(1) have e2: "\<not> ended ?st2"
      by (simp add: mqtt_attempt_fails_def mqtt_on_close_def mqtt_on_error_def mqtt_on_reconnect_def Let_def)
    from Suc.prems(2) have "reconnectCount ?st2 + n \<le> maxReconnectAttempts cfg"
      by (simp add: c2)
    with e2 show ?thesis using p2 by (rule Suc.IH)
  qed
  have "mqtt_failures cfg (Suc n) st = reconnectPeriod st # mqtt_failures cfg n ?st2"
    using Suc.prems(1) by (simp add: mqtt_retry_def)
  then show ?case
    unfolding rest c2 Suc.prems(3) map_upt_Suc_shift by simp
qed

text \<open>
  Claim C3, as stated, for the pub/sub transport: with base 1000 ms and cap 30000 ms the
  delays waited before the first three reconnect attempts of a broker that stays
  unreachable would be 2000, 4000 and 8000 ms. They are 1000, 2000 and 4000 ms: the first
  attempt is made after the configured base delay, before any reconnect event has run.
\<close>

theorem first_delays_waited_counterexample:
  "mqtt_failures mqttConfig 3 (mqtt_initial mqttConfig) = [1000, 2000, 4000]
   \<and> mqtt_failures mqttConfig 3 (mqtt_initial mqttConfig) \<noteq> [2000, 4000, 8000]"
  by (simp add: numeral_3_eq_3 mqtt_retry_def mqtt_attempt_fails_def mqtt_on_reconnect_def
        mqtt_on_error_def mqtt_on_close_def mqtt_initial_def mqttConfig_def Let_def)

text \<open>
  Claim C3, amended, for the pub/sub transport. The delay waited before a reconnect
  attempt is the reconnect period in force. Each reconnect event increments the counter
  and sets the period to \<open>min (base * 2 ^ counter) cap\<close>, which is never above the
  cap. So over consecutive failures from the start, up to the maximum number of
  attempts, the delay waited before attempt number \<open>k\<close> (counted from 0) is
  \<open>min (base * 2 ^ k) cap\<close>. With base 1000 ms and cap 30000 ms the first three delays
  waited are 1000, 2000 and 4000 ms, and the periods these three reconnect events set
  are 2000, 4000 and 8000 ms.
\<close>

theorem backoff_delay:
  "reconnectPeriod (mqtt_on_reconnect cfg st) =
     min (reconnectDelay cfg * 2 ^ (reconnectCount st + 1)) (maxReconnectDelay cfg)
   \<and> reconnectCount (mqtt_on_reconnect cfg st) = reconnectCount st + 1
   \<and> reconnectPeriod (mqtt_on_reconnect cfg st) \<le> maxReconnectDelay cfg
   \<and> fst (mqtt_retry cfg st) = reconnectPeriod st
   \<and> (reconnectDelay cfg \<le> maxReconnectDelay cfg \<and> n \<le> maxReconnectAttempts cfg \<longrightarrow>
        mqtt_failures cfg n (mqtt_initial cfg)
          = map (\<lambda>k. min (reconnectDelay cfg * 2 ^ k) (maxReconnectDelay cfg)) [0..<n])
   \<and> mqtt_failures mqttConfig 3 (mqtt_initial mqttConfig) = [1000, 2000, 4000]
   \<and> map reconnectPeriod
       [mqtt_on_reconnect mqttConfig (mqtt_initial mqttConfig),
        mqtt_on_reconnect mqttConfig (mqtt_on_reconnect mqttConfig (mqtt_initial mqttConfig)),
        mqtt_on_reconnect mqttConfig (mqtt_on_reconnect mqttConfig
          (mqtt_on_reconnect mqttConfig (mqtt_initial mqttConfig)))]
     = [2000, 4000, 8000]"
proof -
  have a: "map reconnectPeriod
       [mqtt_on_reconnect mqttConfig (mqtt_initial mqttConfig),
        mqtt_on_reconnect mqttConfig (mqtt_on_reconnect mqttConfig (mqtt_initial mqttConfig)),
        mqtt_on_reconnect mqttConfig (mqtt_on_reconnect mqttConfig
          (mqtt_on_reconnect mqttConfig (mqtt_initial mqttConfig)))]
     = [2000, 4000, 8000]"
    by (simp add: mqtt_on_reconnect_def mqtt_initial_def mqttConfig_def Let_def)
  have b: "mqtt_failures mqttConfig 3 (mqtt_initial mqttConfig) = [1000, 2000, 4000]"
    by (simp add: numeral_3_eq_3 mqtt_retry_def mqtt_attempt_fails_def mqtt_on_reconnect_def
          mqtt_on_error_def mqtt_on_close_def mqtt_initial_def mqttConfig_def Let_def)
  have c: "reconnectDelay cfg \<le> maxReconnectDelay cfg \<and> n \<le> maxReconnectAttempts cfg \<longrightarrow>
        mqtt_failures cfg n (mqtt_initial cfg)
          = map (\<lambda>k. min (reconnectDelay cfg * 2 ^ k) (maxReconnectDelay cfg)) [0..<n]"
  proof (intro impI, elim conjE)
    assume le: "reconnectDelay cfg \<le> maxReconnectDelay cfg" and n: "n \<le> maxReconnectAttempts cfg"
    have "mqtt_failures cfg n (mqtt_initial cfg) =
           map (\<lambda>k. min (reconnectDelay cfg * 2 ^ (reconnectCount (mqtt_initial cfg) + k))
                       (maxReconnectDelay cfg)) [0..<n]"
      using le n by (intro mqtt_failures_from) (simp_all add: mqtt_initial_def)
    then show "mqtt_failures cfg n (mqtt_initial cfg)
          = map (\<lambda>k. min (reconnectDelay cfg * 2 ^ k) (maxReconnectDelay cfg)) [0..<n]"
      by (simp add: mqtt_initial_def)
  qed
  have d: "fst (mqtt_retry cfg st) = reconnectPeriod st"
    by (simp add: mqtt_retry_def)
  have e: "reconnectPeriod (mqtt_on_reconnect cfg st) \<le> maxReconnectDelay cfg"
    by (simp add: mqtt_on_reconnect_period)
  from a b c d e mqtt_on_reconnect_period [of cfg st] mqtt_on_reconnect_count [of cfg st]
  show ?thesis by (intro conjI)
qed

theorem backoff_delay_witness:
  "reconnectDelay mqttConfig \<le> maxReconnectDelay mqttConfig
   \<and> (10::nat) \<le> maxReconnectAttempts mqttConfig
   \<and> mqtt_failures mqttConfig 10 (mqtt_initial mqttConfig)
       = [1000, 2000, 4000, 8000, 16000, 30000, 30000, 30000, 30000, 30000]
   \<and> reconnectPeriod (mqtt_on_reconnect mqttConfig
        ((mqtt_initial mqttConfig)\<lparr> reconnectCount := 7 \<rparr>)) = 30000"
proof -
  have h: "reconnectDelay mqttConfig \<le> maxReconnectDelay mqttConfig"
    "(10::nat) \<le> maxReconnectAttempts mqttConfig"
    by (simp_all add: mqttConfig_def)
  have u: "[0..<10] = [0, 1, 2, 3, 4, 5, 6, 7, 8, 9::nat]"
    by (simp add: upt_rec)
  from backoff_delay [of mqttConfig "(mqtt_initial mqttConfig)\<lparr> reconnectCount := 7 \<rparr>" 10] h
  have "mqtt_failures mqttConfig 10 (mqtt_initial mqttConfig)
          = map (\<lambda>k. min (reconnectDelay mqttConfig * 2 ^ k) (maxReconnectDelay mqttConfig)) [0..<10]"
    and "reconnectPeriod (mqtt_on_reconnect mqttConfig ((mqtt_initial mqttConfig)\<lparr> reconnectCount := 7 \<rparr>))
          = min (reconnectDelay mqttConfig * 2 ^ (reconnectCount ((mqtt_initial mqttConfig)\<lparr> reconnectCount := 7 \<rparr>) + 1))
              (maxReconnectDelay mqttConfig)"
    by blast+
  then show ?thesis
    using h unfolding u by (simp add: mqttConfig_def mqtt_initial_def)
qed

section \<open>Successful connect\<close>

text \<open>
  Claim C4, as stated, for the pub/sub transport: after three reconnect events the
  reconnect period is 8000 ms, and the connect handler leaves it there; it is not
  restored to the base delay of 1000 ms.
\<close>

theorem connect_keeps_period_counterexample:
  "reconnectPeriod (mqtt_on_connect (mqtt_on_reconnect mqttConfig (mqtt_on_reconnect mqttConfig
      (mqtt_on_reconnect mqttConfig (mqtt_initial mqttConfig))))) = 8000
   \<and> reconnectPeriod (mqtt_on_connect (mqtt_on_reconnect mqttConfig (mqtt_on_reconnect mqttConfig
      (mqtt_on_reconnect mqttConfig (mqtt_initial mqttConfig))))) \<noteq> reconnectDelay mqttConfig"
  by (simp add: mqtt_on_connect_def mqtt_on_reconnect_def mqtt_initial_def mqttConfig_def Let_def)

text \<open>
  Claim C4, amended, for the pub/sub transport. On every successful connect the attempt
  counter is reset to 0, whatever the counter and the backoff were before. The connect
  handler does not write the backoff: the reconnect period keeps its value, which is
  the delay waited after the next close, until the next reconnect event recomputes it
  from the reset counter (twice the base, capped).
\<close>

theorem connect_resets_counter:
  "reconnectCount (mqtt_on_connect st) = 0
   \<and> isConnected (mqtt_on_connect st)
   \<and> reconnectPeriod (mqtt_on_connect st) = reconnectPeriod st
   \<and> fst (mqtt_retry cfg (mqtt_on_close (mqtt_on_connect st))) = reconnectPeriod st
   \<and> reconnectPeriod (mqtt_on_reconnect cfg (mqtt_on_connect st))
       = min (reconnectDelay cfg * 2) (maxReconnectDelay cfg)"
  by (simp add: mqtt_on_connect_def mqtt_on_close_def mqtt_on_reconnect_def mqtt_retry_def Let_def)

theorem connect_resets_counter_witness:
  "reconnectCount (mqtt_on_connect ((mqtt_initial mqttConfig)\<lparr> reconnectCount := 9, reconnectPeriod := 30000 \<rparr>)) = 0
   \<and> reconnectPeriod (mqtt_on_connect ((mqtt_initial mqttConfig)\<lparr> reconnectCount := 9, reconnectPeriod := 30000 \<rparr>)) = 30000
   \<and> fst (mqtt_retry mqttConfig (mqtt_on_close (mqtt_on_connect
         ((mqtt_initial mqttConfig)\<lparr> reconnectCount := 9, reconnectPeriod := 30000 \<rparr>)))) = 30000
   \<and> reconnectPeriod (mqtt_on_reconnect mqttConfig (mqtt_on_connect
         ((mqtt_initial mqttConfig)\<lparr> reconnectCount := 9, reconnectPeriod := 30000 \<rparr>))) = 2000"
  using connect_resets_counter [of "(mqtt_initial mqttConfig)\<lparr> reconnectCount := 9, reconnectPeriod := 30000 \<rparr>"
          mqttConfig]
  by (simp add: mqttConfig_def mqtt_initial_def)

section \<open>The decoder is total and rejects short and unknown frames\<close>

lemma parseDeviceData_with_short:
  "length data < 13 \<Longrightarrow> parseDeviceData_with mkDate data = None"
  by (simp add: parseDeviceData_with_def parseBody_def readUInt32LE_def readBigUInt64LE_def
        split: sum.splits)

lemma parseDeviceData_with_unknown:
  "buf_index data 0 \<noteq> Some 1 \<Longrightarrow> buf_index data 0 \<noteq> Some 2 \<Longrightarrow>
   parseDeviceData_with mkDate data = None"
  by (simp add: parseDeviceData_with_def parseBody_def)

lemma parseDeviceData_with_catch:
  "parseBody mkDate data = Inl e \<Longrightarrow> parseDeviceData_with mkDate data = None"
  by (simp add: parseDeviceData_with_def)

text \<open>
  Claim C7. \<open>parseDeviceData\<close> returns a decoded event or \<open>null\<close> for every byte
  sequence: every exception of its body is caught and becomes \<open>null\<close>. Every frame
  shorter than 13 bytes yields \<open>null\<close>, and so does every frame whose first byte is
  neither 1 nor 2 (the empty frame included). Both hold however the timestamp
  constructor behaves.
\<close>

theorem parseDeviceData_total:
  "(parseDeviceData data = None \<or> (\<exists>ev. parseDeviceData data = Some ev))
   \<and> (parseBody new_Date_of_BigInt data = Inl e \<longrightarrow> parseDeviceData data = None)
   \<and> (length data < 13 \<longrightarrow>
        parseDeviceData data = None \<and> parseDeviceData_with mkDate data = None)
   \<and> (buf_index data 0 \<noteq> Some 1 \<and> buf_index data 0 \<noteq> Some 2 \<longrightarrow>
        parseDeviceData data = None \<and> parseDeviceData_with mkDate data = None)"
  by (auto simp: parseDeviceData_def parseDeviceData_with_short parseDeviceData_with_unknown
        parseDeviceData_with_catch)

theorem parseDeviceData_total_witness:
  "parseBody new_Date_of_BigInt [1, 0, 0] = Inl RangeError
   \<and> parseDeviceData [1, 0, 0] = None
   \<and> length [1, 5, 0, 0, 0, 0, 0, 0, 0, 0, 0, 0 :: byte] < 13
   \<and> parseDeviceData [1, 5, 0, 0, 0, 0, 0, 0, 0, 0, 0, 0] = None
   \<and> parseDeviceData_with (\<lambda>v. Inr (int v)) [2, 5, 0, 0, 0, 0, 0, 0, 0, 0, 0, 0] = None
   \<and> buf_index [3, 5, 0, 0, 0, 0, 0, 0, 0, 0, 0, 0, 0, 1, 0 :: byte] 0 \<noteq> Some 1
   \<and> buf_index [3, 5, 0, 0, 0, 0, 0, 0, 0, 0, 0, 0, 0, 1, 0 :: byte] 0 \<noteq> Some 2
   \<and> parseDeviceData [3, 5, 0, 0, 0, 0, 0, 0, 0, 0, 0, 0, 0, 1, 0] = None
   \<and> parseDeviceData_with (\<lambda>v. Inr (int v)) [3, 5, 0, 0, 0, 0, 0, 0, 0, 0, 0, 0, 0, 1, 0] = None
   \<and> buf_index ([] :: byte list) 0 \<noteq> Some 1
   \<and> parseDeviceData [] = None"
proof -
  have b: "parseBody new_Date_of_BigInt [1, 0, 0] = Inl RangeError"
    by (simp add: parseBody_def buf_index_def readUInt32LE_def)
  have u1: "buf_index [3, 5, 0, 0, 0, 0, 0, 0, 0, 0, 0, 0, 0, 1, 0 :: byte] 0 \<noteq> Some 1"
    and u2: "buf_index [3, 5, 0, 0, 0, 0, 0, 0, 0, 0, 0, 0, 0, 1, 0 :: byte] 0 \<noteq> Some 2"
    and u3: "buf_index ([] :: byte list) 0 \<noteq> Some 1"
    and u4: "buf_index ([] :: byte list) 0 \<noteq> Some 2"
    by (simp_all add: buf_index_def)
  show ?thesis
    using b u1 u2 u3 u4
      parseDeviceData_total [of "[1, 0, 0]" RangeError "\<lambda>v. Inr (int v)"]
      parseDeviceData_total [of "[1, 5, 0, 0, 0, 0, 0, 0, 0, 0, 0, 0]" RangeError "\<lambda>v. Inr (int v)"]
      parseDeviceData_total [of "[2, 5, 0, 0, 0, 0, 0, 0, 0, 0, 0, 0]" RangeError "\<lambda>v. Inr (int v)"]
      parseDeviceData_total [of "[3, 5, 0, 0, 0, 0, 0, 0, 0, 0, 0, 0, 0, 1, 0]" RangeError "\<lambda>v. Inr (int v)"]
      parseDeviceData_total [of "[]" RangeError "\<lambda>v. Inr (int v)"]
    by simp
qed

section \<open>EMG frames: the sample loop and the timestamp\<close>

lemma le_nat_two:
  "j + 1 < length data \<Longrightarrow>
   le_nat (take 2 (drop j data)) = unat (data ! j) + 256 * unat (data ! (j + 1))"
proof -
  assume "j + 1 < length data"
  then have "drop j data = data ! j # data ! (j + 1) # drop (j + 2) data"
    by (metis Cons_nth_drop_Suc Suc_eq_plus1 add_2_eq_Suc' add_lessD1)
  then show ?thesis by (simp add: numeral_2_eq_2)
qed

lemma collectPoints_eq:
  "collectPoints data ts i acc =
     Inr (acc @ map (\<lambda>k. \<lparr> timestamp = ts,
                          sampleValue = sint (word_of_nat (le_nat (take 2 (drop (i + 2 * k) data))) :: 16 word),
                          channel = None \<rparr>)
                [0..<(length data - i) div 2])"
proof (induction data ts i acc rule: collectPoints.induct)
  case (1 data ts i acc)
  show ?case
  proof (cases "i < length data")
    case False
    then show ?thesis by (simp add: collectPoints.simps [of data ts i acc])
  next
    case True
    show ?thesis
    proof (cases "i + 1 < length data")
      case False
      with True have "length data - i = 1" by simp
      with True False 1(2) show ?thesis
        by (simp add: collectPoints.simps [of data ts i acc])
    next
      case t: True
      then have r: "readInt16LE data i = Inr (sint (word_of_nat (le_nat (take 2 (drop i data))) :: 16 word))"
        by (simp add: readInt16LE_def)
      from t have d: "(length data - i) div 2 = Suc ((length data - (i + 2)) div 2)"
        by presburger
      have m: "map f [0..<Suc n] = f 0 # map (\<lambda>k. f (Suc k)) [0..<n]" for f :: "nat \<Rightarrow> dataPoint" and n
        by (simp add: upt_conv_Cons map_Suc_upt [symmetric] del: upt_Suc)
      from True t r 1(1) show ?thesis
        apply (subst collectPoints.simps)
        apply (simp add: d m del: upt_Suc)
        done
    qed
  qed
qed

text \<open>
  What the sample loop computes once a timestamp is there: for an EMG frame of length
  \<open>L \<ge> 13\<close> and a timestamp constructor that succeeds, the decoder yields
  \<open>(L - 13) div 2\<close> data points, the \<open>k\<close>-th being the signed 16-bit little-endian
  value at byte offset \<open>13 + 2 * k\<close>; a trailing odd byte is ignored.
\<close>

lemma parseDeviceData_with_emg_points:
  assumes "buf_index data 0 = Some 1" and "13 \<le> length data"
    and "mkDate (le_nat (take 8 (drop 5 data))) = Inr ts"
  shows "\<exists>ev. parseDeviceData_with mkDate data = Some ev
           \<and> data_type ev = ''emg''
           \<and> data_dataPoints ev =
               map (\<lambda>k. \<lparr> timestamp = ts,
                           sampleValue = sint (word_of_nat (unat (data ! (13 + 2 * k))
                                            + 256 * unat (data ! (13 + 2 * k + 1))) :: 16 word),
                           channel = None \<rparr>)
                   [0..<(length data - 13) div 2]"
proof -
  have "k < (length data - 13) div 2 \<Longrightarrow> 13 + 2 * k + 1 < length data" for k
    by presburger
  then have "map (\<lambda>k. \<lparr> timestamp = ts,
                  sampleValue = sint (word_of_nat (le_nat (take 2 (drop (13 + 2 * k) data))) :: 16 word),
                  channel = None \<rparr>) [0..<(length data - 13) div 2]
           = map (\<lambda>k. \<lparr> timestamp = ts,
                  sampleValue = sint (word_of_nat (unat (data ! (13 + 2 * k))
                                            + 256 * unat (data ! (13 + 2 * k + 1))) :: 16 word),
                  channel = None \<rparr>) [0..<(length data - 13) div 2]"
    by (intro map_cong refl) (simp add: le_nat_two)
  with assms show ?thesis
    by (simp add: parseDeviceData_with_def parseBody_def readUInt32LE_def readBigUInt64LE_def
          collectPoints_eq)
qed

text \<open>
  In \<open>parseDeviceData\<close> itself the timestamp is \<open>new Date(data.readBigUInt64LE(5))\<close>,
  which throws for every frame that is long enough to reach it. So every frame decodes
  to \<open>null\<close>.
\<close>

lemma parseDeviceData_always_null: "parseDeviceData data = None"
  by (simp add: parseDeviceData_def parseDeviceData_with_def parseBody_def new_Date_of_BigInt_def
        split: sum.splits)

text \<open>
  Claim C10 at a 17-byte EMG frame (discriminator 1, session 7, timestamp 9, samples
  \<open>0x1234\<close> and \<open>0xFFFE\<close>): the claim promises the two data points 4660 and -2, which
  is what the sample loop yields once the timestamp exists; \<open>parseDeviceData\<close> returns
  \<open>null\<close>.
\<close>

theorem parseDeviceData_emg_frame_null:
  "parseDeviceData [1, 7, 0, 0, 0, 9, 0, 0, 0, 0, 0, 0, 0, 0x34, 0x12, 0xFE, 0xFF] = None
   \<and> map sampleValue (data_dataPoints (the (parseDeviceData_with (\<lambda>v. Inr (int v))
        [1, 7, 0, 0, 0, 9, 0, 0, 0, 0, 0, 0, 0, 0x34, 0x12, 0xFE, 0xFF]))) = [4660, - 2]"
proof -
  have "collectPoints [1, 7, 0, 0, 0, 9, 0, 0, 0, 0, 0, 0, 0, 0x34, 0x12, 0xFE, 0xFF] 9 13 []
        = Inr [\<lparr> timestamp = 9, sampleValue = 4660, channel = None \<rparr>,
               \<lparr> timestamp = 9, sampleValue = - 2, channel = None \<rparr>]"
    by (simp add: collectPoints.simps [of _ _ 13] collectPoints.simps [of _ _ 15]
          collectPoints.simps [of _ _ 17] readInt16LE_def)
  then show ?thesis
    by (simp add: parseDeviceData_def parseDeviceData_with_def parseBody_def buf_index_def
          new_Date_of_BigInt_def readUInt32LE_def readBigUInt64LE_def)
qed

section \<open>Facts about the stored collections\<close>

lemma foldr_max_ge: "x \<in> set xs \<Longrightarrow> x \<le> foldr max xs (0::nat)"
  by (induction xs) (auto simp: max_def)

lemma freshId_gt: "r \<in> set coll \<Longrightarrow> docId r < freshId coll"
  using foldr_max_ge [of "docId r" "map docId coll"] by (simp add: freshId_def less_Suc_eq_le)

lemma freshId_notin: "freshId coll \<notin> docId ` set coll"
  using freshId_gt by fastforce

lemma updateById_map:
  "distinct (map docId coll) \<Longrightarrow>
   updateById i f coll = map (\<lambda>x. if docId x = i then f x else x) coll"
proof (induction coll)
  case Nil
  then show ?case by simp
next
  case (Cons r rs)
  show ?case
  proof (cases "docId r = i")
    case True
    with Cons.prems have "\<forall>x\<in>set rs. docId x \<noteq> i"
      by (metis distinct.simps(2) image_eqI list.simps(9) set_map)
    then have "map (\<lambda>x. if docId x = i then f x else x) rs = rs"
      by (induction rs) auto
    with True show ?thesis by simp
  next
    case False
    with Cons show ?thesis by simp
  qed
qed

lemma updateById_ids:
  "(\<And>x. docId (f x) = docId x) \<Longrightarrow> map docId (updateById i f coll) = map docId coll"
  by (induction coll) auto

lemma find_filter_conv:
  "find P xs = (case filter P xs of [] \<Rightarrow> None | x # _ \<Rightarrow> Some x)"
  by (induction xs) auto

lemma findOne_keyDocs:
  "findOne sid dev coll = (case keyDocs (dev, sid) coll of [] \<Rightarrow> None | x # _ \<Rightarrow> Some x)"
proof -
  have e: "(\<lambda>r::'a sessionDoc_scheme. sessionId r = sid \<and> device r = dev) = (\<lambda>r. docKey r = (dev, sid))"
    by (auto simp: docKey_def)
  show ?thesis unfolding findOne_def keyDocs_def find_filter_conv e ..
qed

lemma keyDocs_update_head:
  assumes d: "distinct (map docId coll)" and k: "keyDocs k coll = r # rs"
    and f: "\<And>x. docKey (f x) = docKey x"
  shows "keyDocs k (updateById (docId r) f coll) = f r # rs"
proof -
  let ?g = "\<lambda>x. if docId x = docId r then f x else x"
  have g: "docKey (?g x) = docKey x" for x by (simp add: f)
  have "keyDocs k (map ?g coll) = map ?g (keyDocs k coll)"
    by (simp add: keyDocs_def filter_map o_def g)
  moreover have "set (r # rs) \<subseteq> set coll" using k by (metis filter_is_subset keyDocs_def)
  moreover have "distinct (map docId (r # rs))"
    using d k by (metis distinct_map_filter keyDocs_def)
  then have "\<forall>x\<in>set rs. docId x \<noteq> docId r"
    by (metis distinct.simps(2) image_eqI list.simps(9) set_map)
  then have "map ?g rs = rs" by (intro map_idI) simp
  ultimately show ?thesis using d k by (simp add: updateById_map)
qed

lemma keyDocs_update_other:
  assumes d: "distinct (map docId coll)" and r: "r \<in> set coll" and k: "docKey r \<noteq> k"
    and f: "\<And>x. docKey (f x) = docKey x"
  shows "keyDocs k (updateById (docId r) f coll) = keyDocs k coll"
proof -
  let ?g = "\<lambda>x. if docId x = docId r then f x else x"
  have g: "docKey (?g x) = docKey x" for x by (simp add: f)
  have "keyDocs k (map ?g coll) = map ?g (keyDocs k coll)"
    by (simp add: keyDocs_def filter_map o_def g)
  moreover have "x \<in> set (keyDocs k coll) \<Longrightarrow> docId x \<noteq> docId r" for x
  proof
    assume x: "x \<in> set (keyDocs k coll)" and e: "docId x = docId r"
    then have "x \<in> set coll" by (simp add: keyDocs_def)
    with d r e have "x = r" by (meson distinct_map inj_onD)
    with x k show False by (simp add: keyDocs_def)
  qed
  then have "map ?g (keyDocs k coll) = keyDocs k coll" by (intro map_idI) auto
  ultimately show ?thesis using d by (simp add: updateById_map)
qed

lemma docKey_appendEMG [simp]: "docKey (appendEMG data env r) = docKey r"
  by (simp add: appendEMG_def docKey_def)

lemma docId_appendEMG [simp]: "docId (appendEMG data env r) = docId r"
  by (simp add: appendEMG_def)

lemma upsertEMG_distinct:
  "distinct (map docId coll) \<Longrightarrow> distinct (map docId (upsertEMG dev data env coll))"
  by (auto simp: upsertEMG_def updateById_ids newEMG_def freshId_notin split: option.splits)

lemma upsertEMG_same_key:
  assumes "distinct (map docId coll)" and "fault env = None"
  shows "keyDocs (deviceId dev, data_sessionId data) (upsertEMG dev data env coll) =
     (case keyDocs (deviceId dev, data_sessionId data) coll of
        [] \<Rightarrow> [newEMG dev data env (freshId coll)]
      | r # rs \<Rightarrow> appendEMG data env r # rs)"
proof (cases "keyDocs (deviceId dev, data_sessionId data) coll")
  case Nil
  then show ?thesis using assms
    by (simp add: upsertEMG_def findOne_keyDocs) (simp add: keyDocs_def newEMG_def docKey_def)
next
  case (Cons r rs)
  then show ?thesis using assms
    by (simp add: upsertEMG_def findOne_keyDocs keyDocs_update_head)
qed

lemma upsertEMG_other_key:
  assumes "distinct (map docId coll)" and "(deviceId dev, data_sessionId data) \<noteq> k"
  shows "keyDocs k (upsertEMG dev data env coll) = keyDocs k coll"
proof (cases "keyDocs (deviceId dev, data_sessionId data) coll")
  case Nil
  then show ?thesis using assms
    by (simp add: upsertEMG_def findOne_keyDocs) (auto simp add: keyDocs_def newEMG_def docKey_def)
next
  case (Cons r rs)
  then have "r \<in> set (keyDocs (deviceId dev, data_sessionId data) coll)" by simp
  then have "r \<in> set coll" "docKey r \<noteq> k" using assms(2) by (auto simp: keyDocs_def)
  then show ?thesis using assms Cons
    by (simp add: upsertEMG_def findOne_keyDocs keyDocs_update_other)
qed

lemma emgData_touchDevice [simp]: "emgData (touchDevice dev env d) = emgData d"
  and emsData_touchDevice [simp]: "emsData (touchDevice dev env d) = emsData d"
  by (simp_all add: touchDevice_def)

lemma emgData_handleDeviceData:
  "emgData (handleDeviceData dev data env d) =
     (if fault env \<noteq> Some DeviceSave \<and> data_type data = ''emg''
      then upsertEMG dev data env (emgData d) else emgData d)"
  by (simp add: handleDeviceData_def Let_def)

lemma emgData_dispatchParsed:
  "emgData (dispatchParsed dev data env d) = emgData (handleDeviceData dev data env d)"
  by (simp add: dispatchParsed_def handleDeviceData_def processEMGData_def processEMSData_def Let_def)

lemma handleDeviceData_distinct:
  "distinct (map docId (emgData d)) \<Longrightarrow>
   distinct (map docId (emgData (handleDeviceData dev data env d)))"
  by (simp add: emgData_handleDeviceData upsertEMG_distinct)

lemma handleAll_Cons:
  "handleAll ((dev, data, env) # evs) d = handleAll evs (handleDeviceData dev data env d)"
  by (simp add: handleAll_def)

lemma emgEvents_Cons:
  "emgEvents k ((dev, data, env) # evs) =
     (if data_type data = ''emg'' \<and> (deviceId dev, data_sessionId data) = k
      then (dev, data, env) # emgEvents k evs else emgEvents k evs)"
  by (simp add: emgEvents_def eventType_def eventKey_def)

lemma handleDeviceData_keyDocs_step:
  assumes "distinct (map docId (emgData d))"
    and "data_type data = ''emg'' \<and> (deviceId dev, data_sessionId data) = k \<longrightarrow> fault env = None"
  shows "keyDocs k (emgData (handleDeviceData dev data env d)) =
     (if data_type data = ''emg'' \<and> (deviceId dev, data_sessionId data) = k
      then (case keyDocs k (emgData d) of
              [] \<Rightarrow> [newEMG dev data env (freshId (emgData d))]
            | r # rs \<Rightarrow> appendEMG data env r # rs)
      else keyDocs k (emgData d))"
proof (cases "data_type data = ''emg'' \<and> (deviceId dev, data_sessionId data) = k")
  case True
  with assms show ?thesis
    using upsertEMG_same_key [of "emgData d" env dev data]
    by (auto simp: emgData_handleDeviceData)
next
  case False
  with assms show ?thesis
    by (auto simp: emgData_handleDeviceData upsertEMG_other_key)
qed

lemma handleAll_payload:
  assumes "distinct (map docId (emgData d))"
    and "\<forall>ev\<in>set (emgEvents k evs). eventFault ev = None"
  shows "map dataPoints (keyDocs k (emgData (handleAll evs d))) =
     (case map dataPoints (keyDocs k (emgData d)) of
        [] \<Rightarrow> (if emgEvents k evs = [] then [] else [concat (map eventPoints (emgEvents k evs))])
      | p # ps \<Rightarrow> (p @ concat (map eventPoints (emgEvents k evs))) # ps)"
  using assms
proof (induction evs arbitrary: d)
  case Nil
  then show ?case by (simp add: handleAll_def emgEvents_def split: list.splits)
next
  case (Cons ev evs)
  obtain dev data env where ev: "ev = (dev, data, env)" by (cases ev) auto
  let ?d = "handleDeviceData dev data env d"
  have dist: "distinct (map docId (emgData ?d))"
    using Cons.prems(1) by (rule handleDeviceData_distinct)
  have rest: "\<forall>e\<in>set (emgEvents k evs). eventFault e = None"
    using Cons.prems(2) by (auto simp: ev emgEvents_Cons split: if_splits)
  note IH = Cons.IH [OF dist rest]
  show ?case
  proof (cases "data_type data = ''emg'' \<and> (deviceId dev, data_sessionId data) = k")
    case True
    then have f: "fault env = None"
      using Cons.prems(2) by (simp add: ev emgEvents_Cons eventFault_def)
    have step: "keyDocs k (emgData ?d) =
        (case keyDocs k (emgData d) of
              [] \<Rightarrow> [newEMG dev data env (freshId (emgData d))]
            | r # rs \<Rightarrow> appendEMG data env r # rs)"
      using handleDeviceData_keyDocs_step [OF Cons.prems(1), of data dev k env] True f by simp
    show ?thesis
      unfolding ev handleAll_Cons IH step
      using True
      by (simp add: emgEvents_Cons eventPoints_def newEMG_def appendEMG_def split: list.splits)
  next
    case False
    have step: "keyDocs k (emgData ?d) = keyDocs k (emgData d)"
      using handleDeviceData_keyDocs_step [OF Cons.prems(1), of data dev k env] False by simp
    have e: "emgEvents k ((dev, data, env) # evs) = emgEvents k evs"
      using False by (simp add: emgEvents_Cons)
    show ?thesis
      unfolding ev handleAll_Cons IH step e ..
  qed
qed

lemma dispatchAll_emgData:
  "emgData d = emgData d' \<Longrightarrow> emgData (dispatchAll evs d) = emgData (handleAll evs d')"
proof (induction evs arbitrary: d d')
  case Nil
  then show ?case by (simp add: dispatchAll_def handleAll_def)
next
  case (Cons ev evs)
  obtain dev data env where ev: "ev = (dev, data, env)" by (cases ev) auto
  have a: "dispatchAll ((dev, data, env) # evs) d = dispatchAll evs (dispatchParsed dev data env d)"
    by (simp add: dispatchAll_def)
  have "emgData (dispatchParsed dev data env d) = emgData (handleDeviceData dev data env d')"
    using Cons.prems by (simp add: emgData_dispatchParsed emgData_handleDeviceData)
  then show ?case
    unfolding ev a handleAll_Cons by (rule Cons.IH)
qed

text \<open>The same facts for the EMS collection.\<close>

lemma docKey_appendEMS [simp]: "docKey (appendEMS data env r) = docKey r"
  by (simp add: appendEMS_def docKey_def)

lemma docId_appendEMS [simp]: "docId (appendEMS data env r) = docId r"
  by (simp add: appendEMS_def)

lemma upsertEMS_distinct:
  "distinct (map docId coll) \<Longrightarrow> distinct (map docId (upsertEMS dev data env coll))"
  by (auto simp: upsertEMS_def updateById_ids newEMS_def freshId_notin split: option.splits)

lemma upsertEMS_same_key:
  assumes "distinct (map docId coll)" and "fault env = None"
  shows "keyDocs (deviceId dev, data_sessionId data) (upsertEMS dev data env coll) =
     (case keyDocs (deviceId dev, data_sessionId data) coll of
        [] \<Rightarrow> [newEMS dev data env (freshId coll)]
      | r # rs \<Rightarrow> appendEMS data env r # rs)"
proof (cases "keyDocs (deviceId dev, data_sessionId data) coll")
  case Nil
  then show ?thesis using assms
    by (simp add: upsertEMS_def findOne_keyDocs) (simp add: keyDocs_def newEMS_def docKey_def)
next
  case (Cons r rs)
  then show ?thesis using assms
    by (simp add: upsertEMS_def findOne_keyDocs keyDocs_update_head)
qed

lemma upsertEMS_other_key:
  assumes "distinct (map docId coll)" and "(deviceId dev, data_sessionId data) \<noteq> k"
  shows "keyDocs k (upsertEMS dev data env coll) = keyDocs k coll"
proof (cases "keyDocs (deviceId dev, data_sessionId data) coll")
  case Nil
  then show ?thesis using assms
    by (simp add: upsertEMS_def findOne_keyDocs) (auto simp add: keyDocs_def newEMS_def docKey_def)
next
  case (Cons r rs)
  then have "r \<in> set (keyDocs (deviceId dev, data_sessionId data) coll)" by simp
  then have "r \<in> set coll" "docKey r \<noteq> k" using assms(2) by (auto simp: keyDocs_def)
  then show ?thesis using assms Cons
    by (simp add: upsertEMS_def findOne_keyDocs keyDocs_update_other)
qed

lemma emsData_handleDeviceData:
  "emsData (handleDeviceData dev data env d) =
     (if fault env \<noteq> Some DeviceSave \<and> data_type data = ''ems''
      then upsertEMS dev data env (emsData d) else emsData d)"
  by (simp add: handleDeviceData_def Let_def)

lemma emsData_dispatchParsed:
  "emsData (dispatchParsed dev data env d) = emsData (handleDeviceData dev data env d)"
  by (simp add: dispatchParsed_def handleDeviceData_def processEMGData_def processEMSData_def Let_def)

lemma handleDeviceData_distinct_ems:
  "distinct (map docId (emsData d)) \<Longrightarrow>
   distinct (map docId (emsData (handleDeviceData dev data env d)))"
  by (simp add: emsData_handleDeviceData upsertEMS_distinct)

lemma emsEvents_Cons:
  "emsEvents k ((dev, data, env) # evs) =
     (if data_type data = ''ems'' \<and> (deviceId dev, data_sessionId data) = k
      then (dev, data, env) # emsEvents k evs else emsEvents k evs)"
  by (simp add: emsEvents_def eventType_def eventKey_def)

lemma handleDeviceData_keyDocs_step_ems:
  assumes "distinct (map docId (emsData d))"
    and "data_type data = ''ems'' \<and> (deviceId dev, data_sessionId data) = k \<longrightarrow> fault env = None"
  shows "keyDocs k (emsData (handleDeviceData dev data env d)) =
     (if data_type data = ''ems'' \<and> (deviceId dev, data_sessionId data) = k
      then (case keyDocs k (emsData d) of
              [] \<Rightarrow> [newEMS dev data env (freshId (emsData d))]
            | r # rs \<Rightarrow> appendEMS data env r # rs)
      else keyDocs k (emsData d))"
proof (cases "data_type data = ''ems'' \<and> (deviceId dev, data_sessionId data) = k")
  case True
  with assms show ?thesis
    using upsertEMS_same_key [of "emsData d" env dev data]
    by (auto simp: emsData_handleDeviceData)
next
  case False
  with assms show ?thesis
    by (auto simp: emsData_handleDeviceData upsertEMS_other_key)
qed

lemma handleAll_responses:
  assumes "distinct (map docId (emsData d))"
    and "\<forall>ev\<in>set (emsEvents k evs). eventFault ev = None"
  shows "map responseData (keyDocs k (emsData (handleAll evs d))) =
     (case map responseData (keyDocs k (emsData d)) of
        [] \<Rightarrow> (if emsEvents k evs = [] then [] else [concat (map eventResponses (emsEvents k evs))])
      | p # ps \<Rightarrow> (p @ concat (map eventResponses (emsEvents k evs))) # ps)"
  using assms
proof (induction evs arbitrary: d)
  case Nil
  then show ?case by (simp add: handleAll_def emsEvents_def split: list.splits)
next
  case (Cons ev evs)
  obtain dev data env where ev: "ev = (dev, data, env)" by (cases ev) auto
  let ?d = "handleDeviceData dev data env d"
  have dist: "distinct (map docId (emsData ?d))"
    using Cons.prems(1) by (rule handleDeviceData_distinct_ems)
  have rest: "\<forall>e\<in>set (emsEvents k evs). eventFault e = None"
    using Cons.prems(2) by (auto simp: ev emsEvents_Cons split: if_splits)
  note IH = Cons.IH [OF dist rest]
  show ?case
  proof (cases "data_type data = ''ems'' \<and> (deviceId dev, data_sessionId data) = k")
    case True
    then have f: "fault env = None"
      using Cons.prems(2) by (simp add: ev emsEvents_Cons eventFault_def)
    have step: "keyDocs k (emsData ?d) =
        (case keyDocs k (emsData d) of
              [] \<Rightarrow> [newEMS dev data env (freshId (emsData d))]
            | r # rs \<Rightarrow> appendEMS data env r # rs)"
      using handleDeviceData_keyDocs_step_ems [OF Cons.prems(1), of data dev k env] True f by simp
    show ?thesis
      unfolding ev handleAll_Cons IH step
      using True
      by (simp add: emsEvents_Cons eventResponses_def newEMS_def appendEMS_def split: list.splits)
  next
    case False
    have step: "keyDocs k (emsData ?d) = keyDocs k (emsData d)"
      using handleDeviceData_keyDocs_step_ems [OF Cons.prems(1), of data dev k env] False by simp
    have e: "emsEvents k ((dev, data, env) # evs) = emsEvents k evs"
      using False by (simp add: emsEvents_Cons)
    show ?thesis
      unfolding ev handleAll_Cons IH step e ..
  qed
qed

lemma dispatchAll_emsData:
  "emsData d = emsData d' \<Longrightarrow> emsData (dispatchAll evs d) = emsData (handleAll evs d')"
proof (induction evs arbitrary: d d')
  case Nil
  then show ?case by (simp add: dispatchAll_def handleAll_def)
next
  case (Cons ev evs)
  obtain dev data env where ev: "ev = (dev, data, env)" by (cases ev) auto
  have a: "dispatchAll ((dev, data, env) # evs) d = dispatchAll evs (dispatchParsed dev data env d)"
    by (simp add: dispatchAll_def)
  have "emsData (dispatchParsed dev data env d) = emsData (handleDeviceData dev data env d')"
    using Cons.prems by (simp add: emsData_dispatchParsed emsData_handleDeviceData)
  then show ?case
    unfolding ev a handleAll_Cons by (rule Cons.IH)
qed

section \<open>One record per session and kind\<close>

text \<open>
  Claim C1, as stated, at an EMG event and an EMS event of the same device and session,
  both valid for their schemas and handled one after the other: the EMS event does not
  append to the record the EMG event created; it creates a second record, in the other
  collection. Two session records then exist for the pair.
\<close>

theorem two_kinds_two_records_counterexample:
  "eventKey exEventA = (4, ''S1'') \<and> eventKey exEventEMS = (4, ''S1'')
   \<and> length (keyDocs (4, ''S1'') (emgData (handleAll [exEventA, exEventEMS] exDeviceStore)))
     + length (keyDocs (4, ''S1'') (emsData (handleAll [exEventA, exEventEMS] exDeviceStore))) = 2"
  by (simp add: handleAll_def handleDeviceData_def touchDevice_def upsertEMG_def upsertEMS_def
        findOne_def keyDocs_def docKey_def eventKey_def newEMG_def newEMS_def freshId_def
        saveDevice_def exEventA_def exEventEMS_def exDevice_def exPayload_def exDeviceStore_def Let_def)

lemma one_emg_record:
  assumes "distinct (map docId (emgData d))"
    and "keyDocs k (emgData d) = []"
    and "emgEvents k evs \<noteq> []"
    and "\<forall>ev\<in>set (emgEvents k evs). eventFault ev = None"
  shows "\<exists>r. keyDocs k (emgData (handleAll evs d)) = [r]
             \<and> keyDocs k (emgData (dispatchAll evs d)) = [r]
             \<and> dataPoints r = concat (map eventPoints (emgEvents k evs))
             \<and> length (dataPoints r) = sum_list (map (\<lambda>ev. length (eventPoints ev)) (emgEvents k evs))"
proof -
  have "map dataPoints (keyDocs k (emgData (handleAll evs d)))
          = [concat (map eventPoints (emgEvents k evs))]"
    using handleAll_payload [OF assms(1) assms(4)] assms(2,3) by simp
  then obtain r where r: "keyDocs k (emgData (handleAll evs d)) = [r]"
    and p: "dataPoints r = concat (map eventPoints (emgEvents k evs))"
    by auto
  have "emgData (dispatchAll evs d) = emgData (handleAll evs d)"
    by (rule dispatchAll_emgData) simp
  with r p show ?thesis
    by (simp add: length_concat o_def)
qed

lemma one_ems_record:
  assumes "distinct (map docId (emsData d))"
    and "keyDocs k (emsData d) = []"
    and "emsEvents k evs \<noteq> []"
    and "\<forall>ev\<in>set (emsEvents k evs). eventFault ev = None"
  shows "\<exists>r. keyDocs k (emsData (handleAll evs d)) = [r]
             \<and> keyDocs k (emsData (dispatchAll evs d)) = [r]
             \<and> responseData r = concat (map eventResponses (emsEvents k evs))
             \<and> length (responseData r) = sum_list (map (\<lambda>ev. length (eventResponses ev)) (emsEvents k evs))"
proof -
  have "map responseData (keyDocs k (emsData (handleAll evs d)))
          = [concat (map eventResponses (emsEvents k evs))]"
    using handleAll_responses [OF assms(1) assms(4)] assms(2,3) by simp
  then obtain r where r: "keyDocs k (emsData (handleAll evs d)) = [r]"
    and p: "responseData r = concat (map eventResponses (emsEvents k evs))"
    by auto
  have "emsData (dispatchAll evs d) = emsData (handleAll evs d)"
    by (rule dispatchAll_emsData) simp
  with r p show ?thesis
    by (simp add: length_concat o_def)
qed

text \<open>
  Claim C1, amended. Take any sequence of events, handled one at a time in arrival
  order (each call of the handler completes before the next begins) by the pub/sub
  handler or by the dispatch of the wireless handler, a kind (EMG or EMS) and a
  session key \<open>k = (deviceRef, sessionId)\<close> for which the store holds no record of
  that kind. If the sequence contains at least one event of that kind with key \<open>k\<close>
  and none of these meets a storage error, then afterwards exactly one record of that
  kind exists for \<open>k\<close>, and its payload is the concatenation of the samples of these
  events in arrival order (so its length is the sum of their sample counts). Events of
  other keys and of the other kind may be interleaved freely and may fail.
\<close>

theorem one_record_per_session_and_kind:
  "(distinct (map docId (emgData d)) \<and> keyDocs k (emgData d) = [] \<and> emgEvents k evs \<noteq> []
      \<and> (\<forall>ev\<in>set (emgEvents k evs). eventFault ev = None) \<longrightarrow>
      (\<exists>r. keyDocs k (emgData (handleAll evs d)) = [r]
          \<and> keyDocs k (emgData (dispatchAll evs d)) = [r]
          \<and> dataPoints r = concat (map eventPoints (emgEvents k evs))
          \<and> length (dataPoints r) = sum_list (map (\<lambda>ev. length (eventPoints ev)) (emgEvents k evs))))
   \<and> (distinct (map docId (emsData d)) \<and> keyDocs k (emsData d) = [] \<and> emsEvents k evs \<noteq> []
      \<and> (\<forall>ev\<in>set (emsEvents k evs). eventFault ev = None) \<longrightarrow>
      (\<exists>r. keyDocs k (emsData (handleAll evs d)) = [r]
          \<and> keyDocs k (emsData (dispatchAll evs d)) = [r]
          \<and> responseData r = concat (map eventResponses (emsEvents k evs))
          \<and> length (responseData r) = sum_list (map (\<lambda>ev. length (eventResponses ev)) (emsEvents k evs))))"
  using one_emg_record [of d k evs] one_ems_record [of d k evs] by blast

theorem one_record_per_session_and_kind_witness:
  "emgEvents (4, ''S1'') [exEventA, exEventOther, exEventEMS, exEventB] = [exEventA, exEventB]
   \<and> emsEvents (4, ''S1'') [exEventA, exEventOther, exEventEMS, exEventB] = [exEventEMS]
   \<and> (\<exists>r. keyDocs (4, ''S1'') (emgData (handleAll [exEventA, exEventOther, exEventEMS, exEventB] exDeviceStore)) = [r]
          \<and> keyDocs (4, ''S1'') (emgData (dispatchAll [exEventA, exEventOther, exEventEMS, exEventB] exDeviceStore)) = [r]
          \<and> map sampleValue (dataPoints r) = [1, 2, 3, 4, 5]
          \<and> length (dataPoints r) = 5)
   \<and> (\<exists>r. keyDocs (4, ''S1'') (emsData (handleAll [exEventA, exEventOther, exEventEMS, exEventB] exDeviceStore)) = [r]
          \<and> length (responseData r) = 1)"
proof -
  let ?evs = "[exEventA, exEventOther, exEventEMS, exEventB]"
  have e: "emgEvents (4, ''S1'') ?evs = [exEventA, exEventB]"
    by (simp add: emgEvents_def eventType_def eventKey_def exEventA_def exEventB_def
          exEventOther_def exEventEMS_def exDevice_def exPayload_def)
  have e2: "emsEvents (4, ''S1'') ?evs = [exEventEMS]"
    by (simp add: emsEvents_def eventType_def eventKey_def exEventA_def exEventB_def
          exEventOther_def exEventEMS_def exDevice_def exPayload_def)
  have h1: "distinct (map docId (emgData exDeviceStore))" and h2: "keyDocs (4, ''S1'') (emgData exDeviceStore) = []"
    and g1: "distinct (map docId (emsData exDeviceStore))" and g2: "keyDocs (4, ''S1'') (emsData exDeviceStore) = []"
    by (simp_all add: exDeviceStore_def keyDocs_def)
  have h3: "emgEvents (4, ''S1'') ?evs \<noteq> []" and g3: "emsEvents (4, ''S1'') ?evs \<noteq> []"
    unfolding e e2 by simp_all
  have h4: "\<forall>ev\<in>set (emgEvents (4, ''S1'') ?evs). eventFault ev = None"
    unfolding e by (simp add: eventFault_def exEventA_def exEventB_def)
  have g4: "\<forall>ev\<in>set (emsEvents (4, ''S1'') ?evs). eventFault ev = None"
    unfolding e2 by (simp add: eventFault_def exEventEMS_def)
  note t = one_record_per_session_and_kind [of exDeviceStore "(4, ''S1'')" ?evs]
  obtain r where a: "keyDocs (4, ''S1'') (emgData (handleAll ?evs exDeviceStore)) = [r]"
    and b: "keyDocs (4, ''S1'') (emgData (dispatchAll ?evs exDeviceStore)) = [r]"
    and c: "dataPoints r = concat (map eventPoints (emgEvents (4, ''S1'') ?evs))"
    using t h1 h2 h3 h4 by blast
  obtain q where a2: "keyDocs (4, ''S1'') (emsData (handleAll ?evs exDeviceStore)) = [q]"
    and c2: "responseData q = concat (map eventResponses (emsEvents (4, ''S1'') ?evs))"
    using t g1 g2 g3 g4 by blast
  have v: "map sampleValue (dataPoints r) = [1, 2, 3, 4, 5]"
    unfolding c e by (simp add: eventPoints_def exEventA_def exEventB_def exPayload_def exPoint_def)
  then have "length (map sampleValue (dataPoints r)) = 5" by simp
  then have l: "length (dataPoints r) = 5" by simp
  have l2: "length (responseData q) = 1"
    unfolding c2 e2 by (simp add: eventResponses_def exEventEMS_def exPayload_def)
  have first: "\<exists>r. keyDocs (4, ''S1'') (emgData (handleAll ?evs exDeviceStore)) = [r]
          \<and> keyDocs (4, ''S1'') (emgData (dispatchAll ?evs exDeviceStore)) = [r]
          \<and> map sampleValue (dataPoints r) = [1, 2, 3, 4, 5]
          \<and> length (dataPoints r) = 5"
    by (intro conjI exI [of _ r]) (simp_all only: a b v l)
  have second: "\<exists>r. keyDocs (4, ''S1'') (emsData (handleAll ?evs exDeviceStore)) = [r]
          \<and> length (responseData r) = 1"
    by (intro conjI exI [of _ q]) (simp_all only: a2 l2)
  from e e2 first second show ?thesis by (intro conjI)
qed

section \<open>Appending to a session\<close>

text \<open>
  Claim C2, as stated, at the events \<open>A\<close> and \<open>B\<close>: \<open>B\<close> is stamped 150 and handled
  when the clock reads 200. The single record has five samples, and its \<open>endTime\<close> is
  200, the reading of the clock, not 150.
\<close>

theorem endTime_is_not_event_timestamp_counterexample:
  "data_timestamp (fst (snd exEventB)) = Some 150
   \<and> map timestamp (data_dataPoints (fst (snd exEventB))) = [150, 150]
   \<and> map (\<lambda>r. length (dataPoints r)) (keyDocs (4, ''S1'') (emgData (handleAll [exEventA, exEventB] emptyDb))) = [5]
   \<and> map endTime (keyDocs (4, ''S1'') (emgData (handleAll [exEventA, exEventB] emptyDb))) = [Some 200]
   \<and> map endTime (keyDocs (4, ''S1'') (emgData (handleAll [exEventA, exEventB] emptyDb))) \<noteq> [Some 150]"
  by (simp add: handleAll_def handleDeviceData_def touchDevice_def upsertEMG_def
        findOne_def keyDocs_def docKey_def newEMG_def appendEMG_def freshId_def
        saveDevice_def exEventA_def exEventB_def exDevice_def exPayload_def exPoint_def
        emptyDb_def Let_def)

text \<open>
  Claim C2, amended. When an EMG event \<open>A\<close> creates a session with 3 samples and a
  second EMG event \<open>B\<close> for the same device and session arrives with 2 more samples
  (neither meeting a storage error), a single record is left, with the 5 samples in
  arrival order, and its \<open>endTime\<close> is the reading of the clock taken while \<open>B\<close> was
  handled (\<open>new Date()\<close> in the update), not a timestamp carried by \<open>B\<close>.
\<close>

theorem append_sets_endTime_to_clock:
  assumes "distinct (map docId (emgData d))"
    and "keyDocs k (emgData d) = []"
    and "data_type a = ''emg''" and "data_type b = ''emg''"
    and "(deviceId devA, data_sessionId a) = k" and "(deviceId devB, data_sessionId b) = k"
    and "fault envA = None" and "fault envB = None"
    and "length (data_dataPoints a) = 3" and "length (data_dataPoints b) = 2"
  shows "\<exists>r. keyDocs k (emgData (handleAll [(devA, a, envA), (devB, b, envB)] d)) = [r]
             \<and> dataPoints r = data_dataPoints a @ data_dataPoints b
             \<and> length (dataPoints r) = 5
             \<and> endTime r = Some (writeAt envB)"
proof -
  let ?d1 = "handleDeviceData devA a envA d"
  have s1: "keyDocs k (emgData ?d1) = [newEMG devA a envA (freshId (emgData d))]"
    using handleDeviceData_keyDocs_step [OF assms(1), of a devA k envA] assms by simp
  have d1: "distinct (map docId (emgData ?d1))"
    using assms(1) by (rule handleDeviceData_distinct)
  have s2: "keyDocs k (emgData (handleDeviceData devB b envB ?d1))
              = [appendEMG b envB (newEMG devA a envA (freshId (emgData d)))]"
    using handleDeviceData_keyDocs_step [OF d1, of b devB k envB] assms s1 by simp
  show ?thesis
    using assms(9,10) by (simp add: handleAll_Cons handleAll_def [of "[]"] s2 appendEMG_def newEMG_def)
qed

theorem append_sets_endTime_to_clock_witness:
  "\<exists>r. keyDocs (4, ''S1'') (emgData (handleAll [exEventA, exEventB] emptyDb)) = [r]
        \<and> map sampleValue (dataPoints r) = [1, 2, 3, 4, 5]
        \<and> length (dataPoints r) = 5
        \<and> endTime r = Some 200"
proof -
  have h1: "distinct (map docId (emgData emptyDb))" and h2: "keyDocs (4, ''S1'') (emgData emptyDb) = []"
    by (simp_all add: emptyDb_def keyDocs_def)
  have "\<exists>r. keyDocs (4, ''S1'') (emgData (handleAll
            [(fst exEventA, fst (snd exEventA), snd (snd exEventA)),
             (fst exEventB, fst (snd exEventB), snd (snd exEventB))] emptyDb)) = [r]
          \<and> dataPoints r = data_dataPoints (fst (snd exEventA)) @ data_dataPoints (fst (snd exEventB))
          \<and> length (dataPoints r) = 5
          \<and> endTime r = Some (writeAt (snd (snd exEventB)))"
    by (rule append_sets_endTime_to_clock [OF h1 h2])
       (simp_all add: exEventA_def exEventB_def exDevice_def exPayload_def)
  then obtain r where a: "keyDocs (4, ''S1'') (emgData (handleAll [exEventA, exEventB] emptyDb)) = [r]"
    and c: "dataPoints r = data_dataPoints (fst (snd exEventA)) @ data_dataPoints (fst (snd exEventB))"
    and t: "endTime r = Some (writeAt (snd (snd exEventB)))"
    by auto
  have v: "map sampleValue (dataPoints r) = [1, 2, 3, 4, 5]"
    unfolding c by (simp add: exEventA_def exEventB_def exPayload_def exPoint_def)
  then have "length (map sampleValue (dataPoints r)) = 5" by simp
  then have l: "length (dataPoints r) = 5" by simp
  have t': "endTime r = Some 200"
    unfolding t by (simp add: exEventB_def)
  show ?thesis
    by (intro conjI exI [of _ r]) (simp_all only: a v l t')
qed

section \<open>Single-flight sync runs\<close>

lemma schedStep_inv:
  "activeRuns s = (if isSyncing (service s) then 1 else 0) \<Longrightarrow>
   activeRuns (schedStep s ev) = (if isSyncing (service (schedStep s ev)) then 1 else 0)"
  by (cases ev) (auto simp: syncData_enter_def syncData_leave_def split: if_splits)

lemma foldl_schedStep_inv:
  "activeRuns s = (if isSyncing (service s) then 1 else 0) \<Longrightarrow>
   activeRuns (foldl schedStep s evs) = (if isSyncing (service (foldl schedStep s evs)) then 1 else 0)"
  by (induction evs arbitrary: s) (simp_all add: schedStep_inv)

lemma schedRun_inv:
  "activeRuns (schedRun evs) = (if isSyncing (service (schedRun evs)) then 1 else 0)"
  unfolding schedRun_def
  by (rule foldl_schedStep_inv) (simp add: newScheduler_def newSyncService_def)

text \<open>
  Claim C5. Over every sequence of triggers and run ends, at most one run of \<open>syncData\<close>
  is in progress, and one is in progress exactly when the flag is set. While the flag is
  set a trigger changes nothing: no run is started and nothing is kept for later. A
  trigger with the flag clear starts the one run. When a run ends, whether its body
  completed or threw, the flag is clear and no run is in progress. A whole call of
  \<open>syncData\<close> on a busy service returns at once without touching the store, and a call
  that runs leaves the flag clear whatever fails inside it.
\<close>

theorem single_flight:
  "activeRuns (schedRun evs) \<le> 1
   \<and> (isSyncing (service (schedRun evs)) \<longleftrightarrow> activeRuns (schedRun evs) = 1)
   \<and> (isSyncing (service (schedRun evs)) \<longrightarrow> schedStep (schedRun evs) Trigger = schedRun evs)
   \<and> (\<not> isSyncing (service (schedRun evs)) \<longrightarrow>
        isSyncing (service (schedStep (schedRun evs) Trigger))
        \<and> activeRuns (schedStep (schedRun evs) Trigger) = 1)
   \<and> \<not> isSyncing (service (schedStep (schedRun evs) (RunEnds threw)))
   \<and> activeRuns (schedStep (schedRun evs) (RunEnds threw)) = 0
   \<and> (isSyncing svc \<longrightarrow> syncData env svc d = (svc, d, []))
   \<and> (\<not> isSyncing svc \<longrightarrow> \<not> isSyncing (fst (syncData env svc d)))"
proof -
  note i = schedRun_inv [of evs]
  have a: "activeRuns (schedRun evs) \<le> 1" using i by (simp split: if_splits)
  have b: "isSyncing (service (schedRun evs)) \<longleftrightarrow> activeRuns (schedRun evs) = 1"
    using i by (simp split: if_splits)
  have c: "isSyncing (service (schedRun evs)) \<longrightarrow> schedStep (schedRun evs) Trigger = schedRun evs"
    by (simp add: syncData_enter_def)
  have c': "\<not> isSyncing (service (schedRun evs)) \<longrightarrow>
        isSyncing (service (schedStep (schedRun evs) Trigger))
        \<and> activeRuns (schedStep (schedRun evs) Trigger) = 1"
    using i by (simp add: syncData_enter_def)
  have e: "\<not> isSyncing (service (schedStep (schedRun evs) (RunEnds threw)))"
    using i by (simp add: syncData_leave_def split: if_splits)
  have e': "activeRuns (schedStep (schedRun evs) (RunEnds threw)) = 0"
    using i by (simp add: syncData_leave_def split: if_splits)
  have f: "isSyncing svc \<longrightarrow> syncData env svc d = (svc, d, [])"
    by (simp add: syncData_def syncData_enter_def)
  have g: "\<not> isSyncing svc \<longrightarrow> \<not> isSyncing (fst (syncData env svc d))"
    by (simp add: syncData_def syncData_enter_def syncData_leave_def split: prod.splits)
  from a b c c' e e' f g show ?thesis by blast
qed

theorem single_flight_witness:
  "isSyncing (service (schedRun [Trigger, Trigger]))
   \<and> activeRuns (schedRun [Trigger, Trigger]) = 1
   \<and> schedStep (schedRun [Trigger, Trigger]) Trigger = schedRun [Trigger, Trigger]
   \<and> \<not> isSyncing (service (schedRun [Trigger, Trigger, RunEnds True]))
   \<and> activeRuns (schedRun [Trigger, Trigger, RunEnds True, Trigger]) = 1
   \<and> isSyncing (newSyncService\<lparr> isSyncing := True \<rparr>)
   \<and> syncData \<lparr> findFails = (\<lambda>k. True), saveFails = (\<lambda>k i. False), syncClock = (\<lambda>k i. 0) \<rparr>
        (newSyncService\<lparr> isSyncing := True \<rparr>) emptyDb = (newSyncService\<lparr> isSyncing := True \<rparr>, emptyDb, [])
   \<and> \<not> isSyncing newSyncService
   \<and> \<not> isSyncing (fst (syncData \<lparr> findFails = (\<lambda>k. True), saveFails = (\<lambda>k i. False), syncClock = (\<lambda>k i. 0) \<rparr>
        newSyncService emptyDb))"
proof -
  have s: "schedRun [Trigger, Trigger] = \<lparr> service = newSyncService\<lparr> isSyncing := True \<rparr>, activeRuns = 1 \<rparr>"
    by (simp add: schedRun_def newScheduler_def newSyncService_def syncData_enter_def)
  have t: "schedRun [Trigger, Trigger, RunEnds True] = schedStep (schedRun [Trigger, Trigger]) (RunEnds True)"
    by (simp add: schedRun_def)
  have u: "schedRun [Trigger, Trigger, RunEnds True, Trigger]
             = schedStep (schedRun [Trigger, Trigger, RunEnds True]) Trigger"
    by (simp add: schedRun_def)
  show ?thesis
    using single_flight [of "[Trigger, Trigger]" True "newSyncService\<lparr> isSyncing := True \<rparr>"
        "\<lparr> findFails = (\<lambda>k. True), saveFails = (\<lambda>k i. False), syncClock = (\<lambda>k i. 0) \<rparr>" emptyDb]
      single_flight [of "[Trigger, Trigger, RunEnds True]" True newSyncService
        "\<lparr> findFails = (\<lambda>k. True), saveFails = (\<lambda>k i. False), syncClock = (\<lambda>k i. 0) \<rparr>" emptyDb]
    unfolding t u
    by (simp add: s newSyncService_def)
qed

section \<open>What a sync loop does to the store\<close>

lemma docId_markSynced [simp]: "docId (markSynced t x) = docId x"
  by (simp add: markSynced_def)

lemma markSynced_twice [simp]: "markSynced t (markSynced t x) = markSynced t x"
  by (simp add: markSynced_def)

lemma afterSync_empty [simp]: "afterSync env k {} x = x"
  by (simp add: afterSync_def)

lemma afterSync_empty_fun [simp]: "afterSync env k {} = (\<lambda>x. x)"
  by (simp add: fun_eq_iff)

lemma docId_afterSync [simp]: "docId (afterSync env k ids x) = docId x"
  by (simp add: afterSync_def)

lemma afterSync_step:
  "afterSync env k S (if saveFails env k i then x
                      else if docId x = i then markSynced (syncClock env k i) x else x)
     = afterSync env k (insert i S) x"
  by (auto simp: afterSync_def)

lemma syncEMGRecords_char:
  "distinct (map docId (emgData d)) \<Longrightarrow>
   syncEMGRecords env rs d =
     (d\<lparr> emgData := map (afterSync env EMG (docId ` set rs)) (emgData d) \<rparr>,
      attemptLog env EMG (map docId rs))"
proof (induction rs arbitrary: d)
  case Nil
  then show ?case by (simp add: attemptLog_def)
next
  case (Cons r rs)
  define g :: "emgDoc \<Rightarrow> emgDoc" where
    "g = (\<lambda>x. if saveFails env EMG (docId r) then x
               else if docId x = docId r then markSynced (syncClock env EMG (docId r)) x else x)"
  have s: "syncEMGRecord env r d = (d\<lparr> emgData := map g (emgData d) \<rparr>, \<not> saveFails env EMG (docId r))"
    using Cons.prems by (simp add: syncEMGRecord_def updateById_map g_def)
  have c: "docId \<circ> g = docId"
    by (simp add: fun_eq_iff g_def)
  have dist: "distinct (map docId (emgData (d\<lparr> emgData := map g (emgData d) \<rparr>)))"
    using Cons.prems by (simp add: c)
  have m: "afterSync env EMG (docId ` set rs) \<circ> g = afterSync env EMG (insert (docId r) (docId ` set rs))"
    unfolding g_def comp_def by (simp only: afterSync_step)
  show ?case
    by (simp add: s Cons.IH [OF dist] m attemptLog_def)
qed

lemma syncEMSRecords_char:
  "distinct (map docId (emsData d)) \<Longrightarrow>
   syncEMSRecords env rs d =
     (d\<lparr> emsData := map (afterSync env EMS (docId ` set rs)) (emsData d) \<rparr>,
      attemptLog env EMS (map docId rs))"
proof (induction rs arbitrary: d)
  case Nil
  then show ?case by (simp add: attemptLog_def)
next
  case (Cons r rs)
  define g :: "emsDoc \<Rightarrow> emsDoc" where
    "g = (\<lambda>x. if saveFails env EMS (docId r) then x
               else if docId x = docId r then markSynced (syncClock env EMS (docId r)) x else x)"
  have s: "syncEMSRecord env r d = (d\<lparr> emsData := map g (emsData d) \<rparr>, \<not> saveFails env EMS (docId r))"
    using Cons.prems by (simp add: syncEMSRecord_def updateById_map g_def)
  have c: "docId \<circ> g = docId"
    by (simp add: fun_eq_iff g_def)
  have dist: "distinct (map docId (emsData (d\<lparr> emsData := map g (emsData d) \<rparr>)))"
    using Cons.prems by (simp add: c)
  have m: "afterSync env EMS (docId ` set rs) \<circ> g = afterSync env EMS (insert (docId r) (docId ` set rs))"
    unfolding g_def comp_def by (simp only: afterSync_step)
  show ?case
    by (simp add: s Cons.IH [OF dist] m attemptLog_def)
qed

lemma syncBody_char:
  assumes "distinct (map docId (emgData d))" and "distinct (map docId (emsData d))"
    and "\<not> findFails env EMG" and "\<not> findFails env EMS"
  shows "syncBody env d =
     (d\<lparr> emgData := map (afterSync env EMG (docId ` set (findUnsynced (emgData d)))) (emgData d),
         emsData := map (afterSync env EMS (docId ` set (findUnsynced (emsData d)))) (emsData d) \<rparr>,
      attemptLog env EMG (map docId (findUnsynced (emgData d)))
      @ attemptLog env EMS (map docId (findUnsynced (emsData d))))"
  using assms
  by (simp add: syncBody_def Let_def syncEMGRecords_char syncEMSRecords_char attemptLog_def)

lemma syncEMGRecords_emsData [simp]: "emsData (fst (syncEMGRecords env rs d)) = emsData d"
  by (induction rs arbitrary: d) (simp_all add: syncEMGRecord_def split_beta)

lemma syncEMSRecords_emgData [simp]: "emgData (fst (syncEMSRecords env rs d)) = emgData d"
  by (induction rs arbitrary: d) (simp_all add: syncEMSRecord_def split_beta)

lemma syncEMSRecords_log: "snd (syncEMSRecords env rs d) = attemptLog env EMS (map docId rs)"
  by (induction rs arbitrary: d) (simp_all add: syncEMSRecord_def attemptLog_def split_beta)

lemma syncEMGRecords_log: "snd (syncEMGRecords env rs d) = attemptLog env EMG (map docId rs)"
  by (induction rs arbitrary: d) (simp_all add: syncEMGRecord_def attemptLog_def split_beta)

lemma filter_kind_attemptLog:
  "filter (\<lambda>e. entryKind e = k) (attemptLog env k' ids) = (if k = k' then attemptLog env k' ids else [])"
  by (induction ids) (auto simp: attemptLog_def)

lemma syncBody_alt:
  "syncBody env d =
     (if findFails env EMG then (d, [])
      else let r1 = syncEMGRecords env (findUnsynced (emgData d)) d in
           if findFails env EMS then r1
           else let r2 = syncEMSRecords env (findUnsynced (emsData (fst r1))) (fst r1)
                in (fst r2, snd r1 @ snd r2))"
proof -
  have a: "(if length rs > 0 then syncEMGRecords env rs x else (x, [])) = syncEMGRecords env rs x" for rs x
    by (cases rs) simp_all
  have b: "(if length rs > 0 then syncEMSRecords env rs x else (x, [])) = syncEMSRecords env rs x" for rs x
    by (cases rs) simp_all
  show ?thesis
    unfolding syncBody_def a b by (simp add: Let_def split_beta)
qed

lemma syncBody_emg:
  assumes "distinct (map docId (emgData d))" and "\<not> findFails env EMG"
  shows "emgData (fst (syncBody env d))
           = map (afterSync env EMG (docId ` set (findUnsynced (emgData d)))) (emgData d)"
    and "filter (\<lambda>e. entryKind e = EMG) (snd (syncBody env d))
           = attemptLog env EMG (map docId (findUnsynced (emgData d)))"
  using assms
  by (simp_all add: syncBody_alt Let_def syncEMGRecords_char syncEMSRecords_log filter_kind_attemptLog)

lemma syncBody_ems:
  assumes "distinct (map docId (emsData d))" and "\<not> findFails env EMG" and "\<not> findFails env EMS"
  shows "emsData (fst (syncBody env d))
           = map (afterSync env EMS (docId ` set (findUnsynced (emsData d)))) (emsData d)"
    and "filter (\<lambda>e. entryKind e = EMS) (snd (syncBody env d))
           = attemptLog env EMS (map docId (findUnsynced (emsData d)))"
proof -
  have d1: "distinct (map docId (emsData (fst (syncEMGRecords env rs d))))" for rs
    using assms(1) by simp
  have e: "syncEMSRecords env rs (fst (syncEMGRecords env rs' d))
            = ((fst (syncEMGRecords env rs' d))\<lparr> emsData := map (afterSync env EMS (docId ` set rs)) (emsData d) \<rparr>,
               attemptLog env EMS (map docId rs))" for rs rs'
    using syncEMSRecords_char [OF d1, of env rs rs'] by simp
  show "emsData (fst (syncBody env d))
           = map (afterSync env EMS (docId ` set (findUnsynced (emsData d)))) (emsData d)"
    using assms(2,3) by (simp add: syncBody_alt Let_def e)
  show "filter (\<lambda>e. entryKind e = EMS) (snd (syncBody env d))
           = attemptLog env EMS (map docId (findUnsynced (emsData d)))"
    using assms(2,3)
    by (simp add: syncBody_alt Let_def e syncEMGRecords_log filter_kind_attemptLog)
qed

lemma findById_map:
  assumes "distinct (map docId coll)" and "r \<in> set coll" and "\<And>x. docId (G x) = docId x"
  shows "findById (docId r) (map G coll) = Some (G r)"
  using assms(1,2)
proof (induction coll)
  case Nil
  then show ?case by simp
next
  case (Cons x xs)
  show ?case
  proof (cases "x = r")
    case True
    then show ?thesis by (simp add: findById_def assms(3))
  next
    case False
    with Cons.prems have "r \<in> set xs" by simp
    moreover from this Cons.prems(1) have "docId x \<noteq> docId r"
      by (metis distinct.simps(2) image_eqI list.simps(9) set_map)
    ultimately show ?thesis using Cons by (simp add: findById_def assms(3))
  qed
qed

lemma findUnsynced_subset: "r \<in> set (findUnsynced coll) \<Longrightarrow> r \<in> set coll \<and> unsynced r"
  by (auto simp: findUnsynced_def dest: in_set_takeD)

lemma syncedInStore_afterSync:
  assumes "distinct (map docId coll)" and "r \<in> set coll" and "unsynced r"
  shows "syncedInStore (map (afterSync env k ids) coll) r \<longleftrightarrow> docId r \<in> ids \<and> \<not> saveFails env k (docId r)"
  using assms(3)
  by (simp add: syncedInStore_def findById_map [OF assms(1,2)] afterSync_def markSynced_def unsynced_def)

section \<open>Batches of a sync run\<close>

lemma drop_ids_fresh:
  assumes "distinct (map docId U)" and "r \<in> set (drop n U)"
  shows "docId r \<notin> docId ` set (take n U)"
proof -
  have "distinct (map docId (take n U) @ map docId (drop n U))"
    using assms(1) by (metis append_take_drop_id map_append)
  then have "set (map docId (take n U)) \<inter> set (map docId (drop n U)) = {}"
    by (simp only: distinct_append)
  with assms(2) show ?thesis by auto
qed

lemma filter_fresh_ids:
  assumes "distinct (map docId U)"
  shows "filter (\<lambda>x. docId x \<notin> docId ` set (take n U)) U = drop n U"
proof -
  have a: "filter (\<lambda>x. docId x \<notin> docId ` set (take n U)) (take n U) = []"
    by (simp add: filter_empty_conv)
  have b: "filter (\<lambda>x. docId x \<notin> docId ` set (take n U)) (drop n U) = drop n U"
    using drop_ids_fresh [OF assms] by (simp add: filter_id_conv)
  have "filter (\<lambda>x. docId x \<notin> docId ` set (take n U)) (take n U @ drop n U) = drop n U"
    unfolding filter_append a b by simp
  then show ?thesis by simp
qed

lemma unsynced_afterSync:
  "unsynced (afterSync env k ids x) \<longleftrightarrow> unsynced x \<and> \<not> (docId x \<in> ids \<and> \<not> saveFails env k (docId x))"
  by (simp add: afterSync_def unsynced_def markSynced_def)

lemma filter_unsynced_afterSync:
  "filter unsynced (map (afterSync env k ids) coll)
     = filter (\<lambda>x. \<not> (docId x \<in> ids \<and> \<not> saveFails env k (docId x))) (filter unsynced coll)"
proof (induction coll)
  case Nil
  then show ?case by simp
next
  case (Cons x xs)
  then show ?case
    by (simp add: unsynced_afterSync) (simp add: afterSync_def)
qed

lemma remaining_after_full_success:
  assumes "distinct (map docId coll)" and "\<forall>i. \<not> saveFails env k i"
  shows "filter unsynced (map (afterSync env k (docId ` set (take n (filter unsynced coll)))) coll)
           = drop n (filter unsynced coll)"
proof -
  have "distinct (map docId (filter unsynced coll))"
    using assms(1) by (rule distinct_map_filter)
  then have "filter (\<lambda>x. docId x \<notin> docId ` set (take n (filter unsynced coll))) (filter unsynced coll)
           = drop n (filter unsynced coll)"
    by (rule filter_fresh_ids)
  then show ?thesis
    unfolding filter_unsynced_afterSync using assms(2) by simp
qed

lemma length_attemptLog [simp]: "length (attemptLog env k ids) = length ids"
  by (simp add: attemptLog_def)

lemma entryId_attemptLog [simp]: "map entryId (attemptLog env k ids) = ids"
  by (induction ids) (simp_all add: attemptLog_def)

lemma isSynced_attemptLog [simp]:
  "map isSynced (attemptLog env k ids) = map (\<lambda>i. \<not> saveFails env k i) ids"
  by (induction ids) (simp_all add: attemptLog_def)

lemma length_findUnsynced: "length (findUnsynced coll) \<le> batchSize"
  by (simp add: findUnsynced_def)

text \<open>
  Claim C8. A fetch of unsynced records returns at most the batch size, 100, for either
  kind. When 150 unsynced EMG records exist (and the fetch succeeds), the run attempts
  exactly the first 100 of them, each once; the other 50 are still stored and unsynced
  after the run, and when no save fails they are exactly the unsynced EMG records that
  the next run will find.
\<close>

theorem sync_batch_limit:
  "length (findUnsynced coll) \<le> batchSize \<and> batchSize = 100
   \<and> (distinct (map docId (emgData d)) \<and> \<not> findFails env EMG
        \<and> length (filter unsynced (emgData d)) = 150 \<longrightarrow>
        length (findUnsynced (emgData d)) = 100
      \<and> map entryId (filter (\<lambda>e. entryKind e = EMG) (snd (syncBody env d)))
          = map docId (take 100 (filter unsynced (emgData d)))
      \<and> length (drop 100 (filter unsynced (emgData d))) = 50
      \<and> (\<forall>r\<in>set (drop 100 (filter unsynced (emgData d))).
            r \<in> set (emgData (fst (syncBody env d)))
            \<and> \<not> syncedInStore (emgData (fst (syncBody env d))) r)
      \<and> ((\<forall>i. \<not> saveFails env EMG i) \<longrightarrow>
            filter unsynced (emgData (fst (syncBody env d))) = drop 100 (filter unsynced (emgData d))))"
proof -
  have a: "length (findUnsynced coll) \<le> batchSize" by (rule length_findUnsynced)
  have b: "batchSize = 100" by (simp add: batchSize_def)
  {
    assume dist: "distinct (map docId (emgData d))" and ff: "\<not> findFails env EMG"
      and n: "length (filter unsynced (emgData d)) = 150"
    let ?U = "filter unsynced (emgData d)"
    let ?ids = "docId ` set (findUnsynced (emgData d))"
    have fu: "findUnsynced (emgData d) = take 100 ?U"
      by (simp add: findUnsynced_def batchSize_def)
    have st: "emgData (fst (syncBody env d)) = map (afterSync env EMG ?ids) (emgData d)"
      using dist ff by (rule syncBody_emg(1))
    have lg: "filter (\<lambda>e. entryKind e = EMG) (snd (syncBody env d))
                = attemptLog env EMG (map docId (findUnsynced (emgData d)))"
      using dist ff by (rule syncBody_emg(2))
    have c1: "length (findUnsynced (emgData d)) = 100" using n by (simp add: fu)
    have c2: "map entryId (filter (\<lambda>e. entryKind e = EMG) (snd (syncBody env d))) = map docId (take 100 ?U)"
      by (simp add: lg fu)
    have c3: "length (drop 100 ?U) = 50" using n by simp
    have dU: "distinct (map docId ?U)" using dist by (rule distinct_map_filter)
    have c4: "\<forall>r\<in>set (drop 100 ?U). r \<in> set (emgData (fst (syncBody env d)))
            \<and> \<not> syncedInStore (emgData (fst (syncBody env d))) r"
    proof
      fix r assume r: "r \<in> set (drop 100 ?U)"
      then have "r \<in> set ?U" by (rule in_set_dropD)
      then have rc: "r \<in> set (emgData d)" and ru: "unsynced r" by simp_all
      have fresh: "docId r \<notin> ?ids" unfolding fu using dU r by (rule drop_ids_fresh)
      then have "afterSync env EMG ?ids r = r" by (simp add: afterSync_def)
      then have "r \<in> set (map (afterSync env EMG ?ids) (emgData d))"
        using rc by (metis image_eqI set_map)
      moreover have "\<not> syncedInStore (map (afterSync env EMG ?ids) (emgData d)) r"
        using fresh by (simp add: syncedInStore_afterSync [OF dist rc ru])
      ultimately show "r \<in> set (emgData (fst (syncBody env d)))
            \<and> \<not> syncedInStore (emgData (fst (syncBody env d))) r"
        by (simp add: st)
    qed
    have c5: "(\<forall>i. \<not> saveFails env EMG i) \<longrightarrow>
            filter unsynced (emgData (fst (syncBody env d))) = drop 100 ?U"
      unfolding st fu using remaining_after_full_success [OF dist] by blast
    note c1 c2 c3 c4 c5
  }
  with a b show ?thesis by blast
qed

lemma exStore_ids: "map docId (emgData (exStore n)) = [0..<n]"
  by (simp add: exStore_def exDoc_def o_def)

lemma exStore_unsynced: "filter unsynced (emgData (exStore n)) = emgData (exStore n)"
  by (simp add: exStore_def exDoc_def unsynced_def filter_map o_def)

lemma exStore_length: "length (emgData (exStore n)) = n"
  by (simp add: exStore_def)

theorem sync_batch_limit_witness:
  "length (filter unsynced (emgData (exStore 150))) = 150
   \<and> length (findUnsynced (emgData (exStore 150))) = 100
   \<and> map entryId (filter (\<lambda>e. entryKind e = EMG) (snd (syncBody (exEnv {}) (exStore 150)))) = [0..<100]
   \<and> map docId (filter unsynced (emgData (fst (syncBody (exEnv {}) (exStore 150))))) = [100..<150]"
proof -
  have h1: "distinct (map docId (emgData (exStore 150)))" by (simp add: exStore_ids)
  have h2: "\<not> findFails (exEnv {}) EMG" by (simp add: exEnv_def)
  have h3: "length (filter unsynced (emgData (exStore 150))) = 150"
    by (simp add: exStore_unsynced exStore_length)
  have h4: "\<forall>i. \<not> saveFails (exEnv {}) EMG i" by (simp add: exEnv_def)
  have t: "map docId (take 100 (emgData (exStore 150))) = [0..<100]"
    and u: "map docId (drop 100 (emgData (exStore 150))) = [100..<150]"
    by (simp_all add: take_map [symmetric] drop_map [symmetric] exStore_ids take_upt)
  from sync_batch_limit [of "emgData (exStore 150)" "exStore 150" "exEnv {}"] h1 h2 h3 h4
  have "length (findUnsynced (emgData (exStore 150))) = 100"
    and "map entryId (filter (\<lambda>e. entryKind e = EMG) (snd (syncBody (exEnv {}) (exStore 150))))
          = map docId (take 100 (filter unsynced (emgData (exStore 150))))"
    and "filter unsynced (emgData (fst (syncBody (exEnv {}) (exStore 150))))
          = drop 100 (filter unsynced (emgData (exStore 150)))"
    by blast+
  then show ?thesis
    using h3 by (simp add: exStore_unsynced t u)
qed

section \<open>Failures of single records in a sync run\<close>

lemma batch_syncedInStore:
  assumes "distinct (map docId coll)" and "r \<in> set (findUnsynced coll)"
  shows "syncedInStore (map (afterSync env k (docId ` set (findUnsynced coll))) coll) r
           \<longleftrightarrow> \<not> saveFails env k (docId r)"
proof -
  from assms(2) have "r \<in> set coll" and "unsynced r"
    using findUnsynced_subset by blast+
  then show ?thesis
    using assms(2) by (simp add: syncedInStore_afterSync [OF assms(1)])
qed

lemma nine_of_ten:
  assumes "\<forall>r\<in>set b. S r \<longleftrightarrow> \<not> F r" and "length b = 10" and "length (filter F b) = 1"
  shows "length (filter S b) = 9 \<and> length (filter (\<lambda>r. \<not> S r) b) = 1"
proof -
  have "filter S b = filter (\<lambda>r. \<not> F r) b" and "filter (\<lambda>r. \<not> S r) b = filter F b"
    using assms(1) by (auto intro: filter_cong)
  moreover have "length (filter F b) + length (filter (\<lambda>r. \<not> F r) b) = length b"
    by (rule sum_length_filter_compl)
  ultimately show ?thesis using assms(2,3) by simp
qed

text \<open>
  Claim C6. In a sync run whose fetch succeeded, every record of the batch is attempted
  exactly once, in order, whatever the outcome of the others: the console lines of the
  run list the ids of the batch, each once, and a record's line says "synced" exactly
  when its save did not fail. After the run the stored document of a batch record is
  synced exactly when its save did not fail, so a failed record is left unsynced. In a
  batch of 10 with exactly one failing save, 9 stored documents of the batch are synced
  and 1 is not. The same holds for the EMS batch when its fetch succeeds.
\<close>

theorem push_failure_is_isolated:
  assumes "distinct (map docId (emgData d))" and "\<not> findFails env EMG"
  shows "map entryId (filter (\<lambda>e. entryKind e = EMG) (snd (syncBody env d)))
           = map docId (findUnsynced (emgData d))
     \<and> distinct (map entryId (filter (\<lambda>e. entryKind e = EMG) (snd (syncBody env d))))
     \<and> map isSynced (filter (\<lambda>e. entryKind e = EMG) (snd (syncBody env d)))
           = map (\<lambda>r. \<not> saveFails env EMG (docId r)) (findUnsynced (emgData d))
     \<and> (\<forall>r\<in>set (findUnsynced (emgData d)).
           syncedInStore (emgData (fst (syncBody env d))) r \<longleftrightarrow> \<not> saveFails env EMG (docId r))
     \<and> (length (findUnsynced (emgData d)) = 10
          \<and> length (filter (\<lambda>r. saveFails env EMG (docId r)) (findUnsynced (emgData d))) = 1 \<longrightarrow>
          length (filter (syncedInStore (emgData (fst (syncBody env d)))) (findUnsynced (emgData d))) = 9
        \<and> length (filter (\<lambda>r. \<not> syncedInStore (emgData (fst (syncBody env d))) r)
                    (findUnsynced (emgData d))) = 1)
     \<and> (distinct (map docId (emsData d)) \<and> \<not> findFails env EMS \<longrightarrow>
          map entryId (filter (\<lambda>e. entryKind e = EMS) (snd (syncBody env d)))
             = map docId (findUnsynced (emsData d))
        \<and> map isSynced (filter (\<lambda>e. entryKind e = EMS) (snd (syncBody env d)))
             = map (\<lambda>r. \<not> saveFails env EMS (docId r)) (findUnsynced (emsData d))
        \<and> (\<forall>r\<in>set (findUnsynced (emsData d)).
             syncedInStore (emsData (fst (syncBody env d))) r \<longleftrightarrow> \<not> saveFails env EMS (docId r)))"
proof -
  let ?b = "findUnsynced (emgData d)"
  note st = syncBody_emg(1) [OF assms] and lg = syncBody_emg(2) [OF assms]
  have a: "map entryId (filter (\<lambda>e. entryKind e = EMG) (snd (syncBody env d))) = map docId ?b"
    by (simp add: lg)
  have "distinct (map docId (filter unsynced (emgData d)))"
    using assms(1) by (rule distinct_map_filter)
  then have "distinct (map docId ?b)"
    by (simp add: findUnsynced_def take_map [symmetric] distinct_take)
  then have b: "distinct (map entryId (filter (\<lambda>e. entryKind e = EMG) (snd (syncBody env d))))"
    by (simp only: a)
  have c: "map isSynced (filter (\<lambda>e. entryKind e = EMG) (snd (syncBody env d)))
           = map (\<lambda>r. \<not> saveFails env EMG (docId r)) ?b"
    by (simp add: lg o_def)
  have e: "\<forall>r\<in>set ?b. syncedInStore (emgData (fst (syncBody env d))) r \<longleftrightarrow> \<not> saveFails env EMG (docId r)"
    unfolding st using batch_syncedInStore [OF assms(1)] by blast
  have f: "length ?b = 10 \<and> length (filter (\<lambda>r. saveFails env EMG (docId r)) ?b) = 1 \<longrightarrow>
          length (filter (syncedInStore (emgData (fst (syncBody env d)))) ?b) = 9
        \<and> length (filter (\<lambda>r. \<not> syncedInStore (emgData (fst (syncBody env d))) r) ?b) = 1"
    using nine_of_ten [OF e] by blast
  have g: "distinct (map docId (emsData d)) \<and> \<not> findFails env EMS \<longrightarrow>
          map entryId (filter (\<lambda>e. entryKind e = EMS) (snd (syncBody env d)))
             = map docId (findUnsynced (emsData d))
        \<and> map isSynced (filter (\<lambda>e. entryKind e = EMS) (snd (syncBody env d)))
             = map (\<lambda>r. \<not> saveFails env EMS (docId r)) (findUnsynced (emsData d))
        \<and> (\<forall>r\<in>set (findUnsynced (emsData d)).
             syncedInStore (emsData (fst (syncBody env d))) r \<longleftrightarrow> \<not> saveFails env EMS (docId r))"
  proof (intro impI, elim conjE)
    assume d2: "distinct (map docId (emsData d))" and f2: "\<not> findFails env EMS"
    note st2 = syncBody_ems(1) [OF d2 assms(2) f2] and lg2 = syncBody_ems(2) [OF d2 assms(2) f2]
    have "\<forall>r\<in>set (findUnsynced (emsData d)).
             syncedInStore (emsData (fst (syncBody env d))) r \<longleftrightarrow> \<not> saveFails env EMS (docId r)"
      unfolding st2 using batch_syncedInStore [OF d2] by blast
    then show "map entryId (filter (\<lambda>e. entryKind e = EMS) (snd (syncBody env d)))
             = map docId (findUnsynced (emsData d))
        \<and> map isSynced (filter (\<lambda>e. entryKind e = EMS) (snd (syncBody env d)))
             = map (\<lambda>r. \<not> saveFails env EMS (docId r)) (findUnsynced (emsData d))
        \<and> (\<forall>r\<in>set (findUnsynced (emsData d)).
             syncedInStore (emsData (fst (syncBody env d))) r \<longleftrightarrow> \<not> saveFails env EMS (docId r))"
      by (simp add: lg2 o_def)
  qed
  from a b c e f g show ?thesis by (intro conjI)
qed

lemma count_eq_upt: "length (filter (\<lambda>i. i = a) [0..<n]) = (if a < n then 1 else 0)"
  by (induction n) auto

theorem push_failure_is_isolated_witness:
  "length (findUnsynced (emgData (exStore 10))) = 10
   \<and> length (filter (\<lambda>r. saveFails (exEnv {3}) EMG (docId r)) (findUnsynced (emgData (exStore 10)))) = 1
   \<and> map entryId (filter (\<lambda>e. entryKind e = EMG) (snd (syncBody (exEnv {3}) (exStore 10)))) = [0..<10]
   \<and> length (filter (syncedInStore (emgData (fst (syncBody (exEnv {3}) (exStore 10)))))
                (findUnsynced (emgData (exStore 10)))) = 9
   \<and> length (filter (\<lambda>r. \<not> syncedInStore (emgData (fst (syncBody (exEnv {3}) (exStore 10)))) r)
                (findUnsynced (emgData (exStore 10)))) = 1
   \<and> \<not> syncedInStore (emgData (fst (syncBody (exEnv {3}) (exStore 10)))) (exDoc 3)
   \<and> syncedInStore (emgData (fst (syncBody (exEnv {3}) (exStore 10)))) (exDoc 4)"
proof -
  have h1: "distinct (map docId (emgData (exStore 10)))" by (simp add: exStore_ids)
  have h2: "\<not> findFails (exEnv {3}) EMG" by (simp add: exEnv_def)
  have b: "findUnsynced (emgData (exStore 10)) = emgData (exStore 10)"
    by (simp add: findUnsynced_def batchSize_def exStore_unsynced exStore_length)
  have l: "length (findUnsynced (emgData (exStore 10))) = 10"
    by (simp add: b exStore_length)
  have "filter (\<lambda>r. saveFails (exEnv {3}) EMG (docId r)) (map exDoc [0..<10])
          = map exDoc (filter (\<lambda>i. i = 3) [0..<10])"
    by (simp add: filter_map o_def exEnv_def exDoc_def)
  then have f: "length (filter (\<lambda>r. saveFails (exEnv {3}) EMG (docId r)) (findUnsynced (emgData (exStore 10)))) = 1"
    unfolding b by (simp add: exStore_def count_eq_upt)
  have m3: "exDoc 3 \<in> set (findUnsynced (emgData (exStore 10)))"
    and m4: "exDoc 4 \<in> set (findUnsynced (emgData (exStore 10)))"
    unfolding b by (simp_all add: exStore_def)
  have s3: "saveFails (exEnv {3}) EMG (docId (exDoc 3))" and s4: "\<not> saveFails (exEnv {3}) EMG (docId (exDoc 4))"
    by (simp_all add: exEnv_def exDoc_def)
  note t = push_failure_is_isolated [OF h1 h2]
  from t have ids: "map entryId (filter (\<lambda>e. entryKind e = EMG) (snd (syncBody (exEnv {3}) (exStore 10))))
                 = map docId (findUnsynced (emgData (exStore 10)))"
    by (rule conjunct1)
  from t l f have n: "length (filter (syncedInStore (emgData (fst (syncBody (exEnv {3}) (exStore 10)))))
                (findUnsynced (emgData (exStore 10)))) = 9
   \<and> length (filter (\<lambda>r. \<not> syncedInStore (emgData (fst (syncBody (exEnv {3}) (exStore 10)))) r)
                (findUnsynced (emgData (exStore 10)))) = 1"
    by blast
  from t m3 m4 s3 s4 have q: "\<not> syncedInStore (emgData (fst (syncBody (exEnv {3}) (exStore 10)))) (exDoc 3)
   \<and> syncedInStore (emgData (fst (syncBody (exEnv {3}) (exStore 10)))) (exDoc 4)"
    by blast
  have ids': "map entryId (filter (\<lambda>e. entryKind e = EMG) (snd (syncBody (exEnv {3}) (exStore 10)))) = [0..<10]"
    unfolding ids b by (rule exStore_ids)
  from l f ids' n q show ?thesis by (intro conjI) simp_all
qed

section \<open>The sync status of a record only moves from unsynced to synced\<close>

lemma statusStep_refl [simp]: "statusStep x x"
  by (simp add: statusStep_def)


lemma statusStep_appendEMG [simp]: "statusStep x (appendEMG data env x)"
  by (simp add: statusStep_def appendEMG_def)

lemma statusStep_appendEMS [simp]: "statusStep x (appendEMS data env x)"
  by (simp add: statusStep_def appendEMS_def)

lemma statusStep_markSynced [simp]: "statusStep x (markSynced t x)"
  by (simp add: statusStep_def markSynced_def)

lemma evolves_refl [simp]: "evolves coll coll"
  by (simp add: evolves_def list_all2_refl)


lemma length_updateById [simp]: "length (updateById i f coll) = length coll"
  by (induction coll) simp_all



lemma evolves_append [simp]: "evolves coll (coll @ extra)"
  by (simp add: evolves_def list_all2_refl)























end
